theory Spec2Isabelle
  imports Complex_Main "HOL-Library.Word"
begin

section \<open>Strings of UTF-16 code units\<close>

text \<open>
  A JavaScript string is a sequence of 16-bit code units and \<open>length\<close> counts code
  units, so a string is a list of 16-bit words. The code units that the text utilities
  look at are named below.
\<close>

type_synonym jschar = "16 word"
type_synonym jsstring = "jschar list"

abbreviation TAB :: jschar where "TAB \<equiv> 0x09"
abbreviation LF :: jschar where "LF \<equiv> 0x0A"
abbreviation CR :: jschar where "CR \<equiv> 0x0D"
abbreviation SP :: jschar where "SP \<equiv> 0x20"
abbreviation BANG :: jschar where "BANG \<equiv> 0x21"
abbreviation DOT :: jschar where "DOT \<equiv> 0x2E"
abbreviation QUERY :: jschar where "QUERY \<equiv> 0x3F"

text \<open>The character class \<^verbatim>\<open>[ \t]\<close> of \<^verbatim>\<open>cleanText\<close>.\<close>

definition is_blank :: "jschar \<Rightarrow> bool" where
  "is_blank c \<longleftrightarrow> c = SP \<or> c = TAB"

text \<open>
  What \<^verbatim>\<open>String.prototype.trim\<close> strips: the ECMAScript WhiteSpace and
  LineTerminator code points (TAB, LF, VT, FF, CR, SP, NBSP, the Unicode space
  separators, LS, PS and the byte order mark).
\<close>

definition is_white :: "jschar \<Rightarrow> bool" where
  "is_white c \<longleftrightarrow>
     c = 0x09 \<or> c = 0x0A \<or> c = 0x0B \<or> c = 0x0C \<or> c = 0x0D \<or> c = 0x20 \<or> c = 0xA0 \<or>
     c = 0x1680 \<or> (0x2000 \<le> c \<and> c \<le> 0x200A) \<or> c = 0x2028 \<or> c = 0x2029 \<or>
     c = 0x202F \<or> c = 0x205F \<or> c = 0x3000 \<or> c = 0xFEFF"

subsection \<open>The string methods used by the source\<close>

text \<open>\<^verbatim>\<open>s.trim()\<close>: drop the white space at both ends.\<close>

definition trim :: "jsstring \<Rightarrow> jsstring" where
  "trim s = rev (dropWhile is_white (rev (dropWhile is_white s)))"

text \<open>
  \<^verbatim>\<open>s.substring(a, b)\<close>: both indices are clamped to \<open>[0, length s]\<close> and swapped
  when the first is the larger one.
\<close>

definition substring :: "jsstring \<Rightarrow> int \<Rightarrow> int \<Rightarrow> jsstring" where
  "substring s a b =
     (let n = int (length s);
          a' = min (max a 0) n;
          b' = min (max b 0) n;
          lo = min a' b';
          hi = max a' b'
      in take (nat (hi - lo)) (drop (nat lo) s))"

text \<open>Does \<open>pat\<close> occur in \<open>s\<close> at index \<open>k\<close>?\<close>

definition matches_at :: "jsstring \<Rightarrow> jsstring \<Rightarrow> nat \<Rightarrow> bool" where
  "matches_at s pat k \<longleftrightarrow> k + length pat \<le> length s \<and> take (length pat) (drop k s) = pat"

text \<open>The largest index not above \<open>k\<close> where \<open>pat\<close> occurs, or \<open>-1\<close>.\<close>

fun last_match :: "jsstring \<Rightarrow> jsstring \<Rightarrow> nat \<Rightarrow> int" where
  "last_match s pat 0 = (if matches_at s pat 0 then 0 else - 1)"
| "last_match s pat (Suc k) =
     (if matches_at s pat (Suc k) then int (Suc k) else last_match s pat k)"

text \<open>
  \<^verbatim>\<open>s.lastIndexOf(pat, pos)\<close>: the position is clamped to \<open>[0, length s]\<close>, the
  search runs downwards from there, and \<open>-1\<close> says that there is no occurrence.
\<close>

definition lastIndexOf :: "jsstring \<Rightarrow> jsstring \<Rightarrow> int \<Rightarrow> int" where
  "lastIndexOf s pat pos = last_match s pat (nat (min (max pos 0) (int (length s))))"

section \<open>Text normalisation: \<^verbatim>\<open>cleanText\<close>\<close>

text \<open>\<^verbatim>\<open>.replace(/\r\n/g, '\n')\<close>\<close>

fun replace_crlf :: "jsstring \<Rightarrow> jsstring" where
  "replace_crlf (c # d # cs) =
     (if c = CR \<and> d = LF then LF # replace_crlf cs else c # replace_crlf (d # cs))"
| "replace_crlf cs = cs"

text \<open>\<^verbatim>\<open>.replace(/\r/g, '\n')\<close>\<close>

definition replace_cr :: "jsstring \<Rightarrow> jsstring" where
  "replace_cr cs = map (\<lambda>c. if c = CR then LF else c) cs"

text \<open>\<^verbatim>\<open>.replace(/[ \t]+/g, ' ')\<close>: every maximal run of blanks becomes one space.\<close>

function collapse_blanks :: "jsstring \<Rightarrow> jsstring" where
  "collapse_blanks [] = []"
| "collapse_blanks (c # cs) =
     (if is_blank c then SP # collapse_blanks (dropWhile is_blank cs)
      else c # collapse_blanks cs)"
  by pat_completeness auto
termination
  by (relation "measure length") (auto simp: length_dropWhile_le less_Suc_eq_le)

text \<open>
  \<^verbatim>\<open>.replace(/\n{3,}/g, '\n\n')\<close>: every maximal run of three or more newlines
  becomes two newlines; shorter runs stay.
\<close>

function collapse_newlines :: "jsstring \<Rightarrow> jsstring" where
  "collapse_newlines [] = []"
| "collapse_newlines (c # cs) =
     (if c = LF then
        (if 2 \<le> length (takeWhile (\<lambda>d. d = LF) cs)
         then LF # LF # collapse_newlines (dropWhile (\<lambda>d. d = LF) cs)
         else LF # takeWhile (\<lambda>d. d = LF) cs @ collapse_newlines (dropWhile (\<lambda>d. d = LF) cs))
      else c # collapse_newlines cs)"
  by pat_completeness auto
termination
  by (relation "measure length") (auto simp: length_dropWhile_le less_Suc_eq_le)

definition cleanText :: "jsstring \<Rightarrow> jsstring" where
  "cleanText text =
     trim (collapse_newlines (collapse_blanks (replace_cr (replace_crlf text))))"

section \<open>Chunking: \<^verbatim>\<open>chunkText\<close> and \<^verbatim>\<open>findSentenceEnd\<close>\<close>

text \<open>The interface \<^verbatim>\<open>TextChunk\<close>; its field \<^verbatim>\<open>text\<close> is \<open>chunk_text\<close> here.\<close>

record TextChunk =
  chunk_text :: jsstring
  index :: nat
  startChar :: int
  endChar :: int

definition sentenceEnders :: "jsstring list" where
  "sentenceEnders =
     [[DOT, SP], [BANG, SP], [QUERY, SP], [DOT, LF], [BANG, LF], [QUERY, LF]]"

text \<open>
  One round of the \<^verbatim>\<open>for (const ender of sentenceEnders)\<close> loop. The pair is
  \<^verbatim>\<open>(bestPos, minDistance)\<close>; \<^verbatim>\<open>Infinity\<close> is \<open>None\<close>.
\<close>

definition ender_step ::
  "jsstring \<Rightarrow> int \<Rightarrow> int \<Rightarrow> jsstring \<Rightarrow> int \<times> int option \<Rightarrow> int \<times> int option" where
  "ender_step searchText searchStart target ender best =
     (let pos = lastIndexOf searchText ender (target - searchStart) in
      if pos \<noteq> - 1 then
        (let actualPos = searchStart + pos + int (length ender);
             distance = \<bar>actualPos - target\<bar>
         in if (case snd best of None \<Rightarrow> True | Some m \<Rightarrow> distance < m)
            then (actualPos, Some distance) else best)
      else best)"

definition findSentenceEnd :: "jsstring \<Rightarrow> int \<Rightarrow> int \<Rightarrow> int" where
  "findSentenceEnd txt start target =
     (let searchStart = max start (target - 200);
          searchEnd = min (int (length txt)) (target + 100);
          searchText = substring txt searchStart searchEnd;
          bestPos = fst (fold (ender_step searchText searchStart target) sentenceEnders (- 1, None))
      in if bestPos > start then bestPos else target)"

text \<open>
  The state of the \<^verbatim>\<open>while\<close> loop of \<^verbatim>\<open>chunkText\<close>: the cursor
  \<^verbatim>\<open>startChar\<close>, the next \<^verbatim>\<open>chunkIndex\<close> and the chunks pushed so far. The
  local variables \<^verbatim>\<open>startChar\<close>, \<^verbatim>\<open>endChar\<close> and \<^verbatim>\<open>chunkText\<close> of the loop are
  \<open>startC\<close>, \<open>endC\<close> and \<open>chunkTxt\<close> below, since the names are taken by the
  fields of \<open>TextChunk\<close> and by the function.
\<close>

type_synonym chunk_state = "int \<times> nat \<times> TextChunk list"

text \<open>
  One iteration of the loop body. \<^verbatim>\<open>chunks[chunks.length - 1]?.startChar\<close> is
  \<^verbatim>\<open>undefined\<close> while no chunk has been pushed, and a comparison with
  \<^verbatim>\<open>undefined\<close> is false.
\<close>

definition chunk_step :: "jsstring \<Rightarrow> int \<Rightarrow> int \<Rightarrow> chunk_state \<Rightarrow> chunk_state" where
  "chunk_step cleanedText chunkSize overlap st =
     (case st of (startC, chunkIndex, chunks) \<Rightarrow>
      let len = int (length cleanedText);
          endC0 = min (startC + chunkSize) len;
          endC =
            (if endC0 < len then
               (let sentenceEnd = findSentenceEnd cleanedText startC endC0
                in if sentenceEnd > startC then sentenceEnd else endC0)
             else endC0);
          chunkTxt = trim (substring cleanedText startC endC);
          chunks' =
            (if length chunkTxt > 0
             then chunks @ [\<lparr>chunk_text = chunkTxt, index = chunkIndex,
                             startChar = startC, endChar = endC\<rparr>]
             else chunks);
          chunkIndex' = (if length chunkTxt > 0 then chunkIndex + 1 else chunkIndex);
          startC' = endC - overlap
      in if chunks' \<noteq> [] \<and> startC' \<le> startChar (last chunks')
         then (endC, chunkIndex', chunks')
         else (startC', chunkIndex', chunks'))"

text \<open>
  The loop itself. It need not end for every \<^verbatim>\<open>chunkSize\<close> and
  \<^verbatim>\<open>overlap\<close>, so the number of iterations is bounded by the first argument:
  \<open>None\<close> says that the loop was still running after that many iterations.
\<close>

fun chunk_loop ::
  "nat \<Rightarrow> jsstring \<Rightarrow> int \<Rightarrow> int \<Rightarrow> chunk_state \<Rightarrow> TextChunk list option" where
  "chunk_loop 0 cleanedText chunkSize overlap st =
     (if fst st < int (length cleanedText) then None else Some (snd (snd st)))"
| "chunk_loop (Suc fuel) cleanedText chunkSize overlap st =
     (if fst st < int (length cleanedText)
      then chunk_loop fuel cleanedText chunkSize overlap
             (chunk_step cleanedText chunkSize overlap st)
      else Some (snd (snd st)))"

definition chunkText :: "nat \<Rightarrow> jsstring \<Rightarrow> int \<Rightarrow> int \<Rightarrow> TextChunk list option" where
  "chunkText fuel txt chunkSize overlap =
     (let cleanedText = cleanText txt in
      if int (length cleanedText) \<le> chunkSize
      then Some [\<lparr>chunk_text = cleanedText, index = 0, startChar = 0,
                   endChar = int (length cleanedText)\<rparr>]
      else chunk_loop fuel cleanedText chunkSize overlap (0, 0, []))"

text \<open>
  The cut point \<^verbatim>\<open>endChar\<close> that one iteration settles on, as a function of the
  cursor; \<open>chunk_step\<close> computes it inline.
\<close>

definition cut_point :: "jsstring \<Rightarrow> int \<Rightarrow> int \<Rightarrow> int" where
  "cut_point cleanedText chunkSize startC =
     (let len = int (length cleanedText);
          endC0 = min (startC + chunkSize) len
      in if endC0 < len then
           (let sentenceEnd = findSentenceEnd cleanedText startC endC0
            in if sentenceEnd > startC then sentenceEnd else endC0)
         else endC0)"

section \<open>Vector utilities: \<^verbatim>\<open>cosineSimilarity\<close> and \<^verbatim>\<open>findTopKSimilar\<close>\<close>

text \<open>
  Every \<^verbatim>\<open>throw\<close> of the source is a value of this type. JavaScript numbers are
  modelled as real numbers: products, sums, square roots and quotients are exact,
  and numbers are totally ordered.
\<close>

datatype error =
    DimensionError
  | VoyageKeyInvalid
  | VoyageRateLimited
  | EmbeddingFailed
  | GeminiKeyInvalid
  | GeminiKeyBlocked
  | GeminiForbidden
  | GeminiTimedOut
  | GeminiQuotaExceeded
  | GenerationFailed
  | StoreError

definition cosineSimilarity :: "real list \<Rightarrow> real list \<Rightarrow> error + real" where
  "cosineSimilarity vecA vecB =
     (if length vecA \<noteq> length vecB then Inl DimensionError
      else if length vecA = 0 then Inr 0
      else
        (case fold (\<lambda>i (dotProduct, normA, normB).
                      (dotProduct + vecA ! i * vecB ! i,
                       normA + vecA ! i * vecA ! i,
                       normB + vecB ! i * vecB ! i))
                   [0..<length vecA] (0, 0, 0) of
           (dotProduct, normA2, normB2) \<Rightarrow>
             (let normA = sqrt normA2; normB = sqrt normB2
              in if normA = 0 \<or> normB = 0 then Inr 0
                 else Inr (dotProduct / (normA * normB)))))"






section \<open>The collaborators: embedding service, generation service and stores\<close>

text \<open>ASCII literals of the source as strings of code units, and decimal numerals.\<close>

definition js :: "string \<Rightarrow> jsstring" where
  "js cs = map (\<lambda>c. of_nat (of_char c)) cs"

fun show_nat :: "nat \<Rightarrow> jsstring" where
  "show_nat n =
     (if n < 10 then [of_nat (48 + n)] else show_nat (n div 10) @ [of_nat (48 + n mod 10)])"

text \<open>
  The fields that the source passes to \<^verbatim>\<open>DocumentModel.create\<close>. An optional field
  that is left out is \<open>None\<close>.
\<close>

record doc_fields =
  title :: jsstring
  content :: jsstring
  category :: jsstring
  tags :: "jsstring list"
  embedding :: "real list"
  uploadedBy :: jsstring
  isPublic :: bool
  isChunk :: bool
  parentDocumentId :: "nat option"
  chunkIndex :: "nat option"
  chunkCount :: "nat option"

text \<open>The ASTU metadata of a stored document, all of it optional.\<close>

record astu_metadata =
  officeLocation :: "jsstring option"
  requiredDocuments :: "jsstring list option"
  processSteps :: "jsstring list option"
  deadlineDate :: "nat option"
  contactInfo :: "(jsstring option \<times> jsstring option \<times> jsstring option) option"

text \<open>
  A document as a search returns it: its fields, its \<^verbatim>\<open>_id\<close>, the score that the
  search attached (absent for the text search) and its metadata.
\<close>

record found_doc = doc_fields +
  doc_id :: nat
  similarity :: "real option"
  metadata :: astu_metadata

text \<open>The document store: the documents created so far, each with its \<^verbatim>\<open>_id\<close>.\<close>

type_synonym store = "(nat \<times> doc_fields) list"

text \<open>
  What \<^verbatim>\<open>axios.post\<close> to the embedding service does: it answers, with
  \<^verbatim>\<open>data.data[0].embedding\<close> when that is present; it is rejected with an HTTP
  status; or it fails without a response.
\<close>

datatype voyage_outcome =
    Responded "real list option"
  | HttpStatus nat
  | NoResponse

text \<open>
  What the generation call does: it returns a text, or it throws; the
  \<^verbatim>\<open>catch\<close> block of \<^verbatim>\<open>generateAIResponse\<close> classifies the message of what was
  thrown by the first of the substrings \<^verbatim>\<open>API_KEY\<close>, \<^verbatim>\<open>leaked\<close>, \<^verbatim>\<open>403\<close>,
  \<^verbatim>\<open>timeout\<close>, \<^verbatim>\<open>quota\<close> that it contains. The 30 second race throws a
  message with \<^verbatim>\<open>timeout\<close>.
\<close>

datatype thrown_message =
    MentionsApiKey
  | MentionsLeaked
  | Mentions403
  | MentionsTimeout
  | MentionsQuota
  | OtherMessage

datatype gemini_outcome =
    Generated jsstring
  | Threw thrown_message

text \<open>
  Everything outside the process. The environment variables are present or not; the
  services and the searches are functions of their request, and \<open>None\<close> from a
  search is a thrown exception; the store accepts a document or rejects it; reading
  and saving the chat history succeed or throw; \<open>now\<close> is \<^verbatim>\<open>Date.now()\<close>. The
  generation service is asked with a prompt that \<^verbatim>\<open>generateAIResponse\<close> builds
  from the question, the context documents, the language and the mode, so it is a
  function of those four.
\<close>

record world =
  VOYAGE_API_KEY :: bool
  voyage_post :: "jsstring \<Rightarrow> voyage_outcome"
  db_accepts :: "doc_fields \<Rightarrow> bool"
  vectorSearch :: "real list \<Rightarrow> nat \<Rightarrow> found_doc list option"
  findSimilar :: "jsstring \<Rightarrow> nat \<Rightarrow> found_doc list option"
  GEMINI_API_KEY :: bool
  generateContent :: "jsstring \<Rightarrow> found_doc list \<Rightarrow> jsstring \<Rightarrow> jsstring \<Rightarrow> gemini_outcome"
  history_find_ok :: bool
  history_save_ok :: bool
  now :: nat

text \<open>
  \<^verbatim>\<open>generateEmbedding\<close>. Whatever goes wrong inside its \<^verbatim>\<open>try\<close> block is caught
  and thrown again: the function returns an embedding of 1024 numbers or throws, and
  never returns \<^verbatim>\<open>null\<close>.
\<close>

definition generateEmbedding :: "world \<Rightarrow> jsstring \<Rightarrow> error + real list" where
  "generateEmbedding w txt =
     (if \<not> VOYAGE_API_KEY w then Inl EmbeddingFailed
      else case voyage_post w txt of
             Responded (Some e) \<Rightarrow> if length e \<noteq> 1024 then Inl EmbeddingFailed else Inr e
           | Responded None \<Rightarrow> Inl EmbeddingFailed
           | HttpStatus st \<Rightarrow>
               if st = 401 then Inl VoyageKeyInvalid
               else if st = 429 then Inl VoyageRateLimited
               else Inl EmbeddingFailed
           | NoResponse \<Rightarrow> Inl EmbeddingFailed)"

text \<open>
  \<^verbatim>\<open>DocumentModel.create\<close>: the store rejects the document, or keeps it under a
  fresh \<^verbatim>\<open>_id\<close> (a counter stands for the generated ObjectId).
\<close>

definition create :: "world \<Rightarrow> store \<Rightarrow> doc_fields \<Rightarrow> error + (nat \<times> store)" where
  "create w st d =
     (if db_accepts w d then Inr (length st, st @ [(length st, d)]) else Inl StoreError)"

section \<open>Ingestion: \<^verbatim>\<open>processAndSaveDocument\<close>\<close>

text \<open>What a successful call returns; \<^verbatim>\<open>chunksCreated\<close> is only set for a chunked document.\<close>

record ingest_result =
  res_id :: nat
  res_title :: jsstring
  res_category :: jsstring
  chunksCreated :: "nat option"

text \<open>
  \<^verbatim>\<open>category || 'other'\<close> and \<^verbatim>\<open>tags || []\<close>: a missing category, which the
  default parameter replaces too, and the empty string become \<^verbatim>\<open>'other'\<close>; missing
  tags become the empty array.
\<close>

definition category_or_other :: "jsstring option \<Rightarrow> jsstring" where
  "category_or_other cat0 =
     (case cat0 of None \<Rightarrow> js ''other'' | Some c \<Rightarrow> if c = [] then js ''other'' else c)"

definition tags_or_empty :: "jsstring list option \<Rightarrow> jsstring list" where
  "tags_or_empty tags0 = (case tags0 of None \<Rightarrow> [] | Some t \<Rightarrow> t)"

text \<open>The parent document of a chunked text, with \<open>n\<close> chunks.\<close>

definition parent_doc ::
  "jsstring \<Rightarrow> jsstring \<Rightarrow> jsstring \<Rightarrow> jsstring list \<Rightarrow> jsstring \<Rightarrow> nat \<Rightarrow> doc_fields" where
  "parent_doc ttl cleanedContent cat tgs uid n =
     \<lparr>title = ttl,
      content = cleanedContent,
      category = cat,
      tags = tgs,
      embedding = [],
      uploadedBy = uid,
      isPublic = True,
      isChunk = False,
      parentDocumentId = None,
      chunkIndex = None,
      chunkCount = Some n\<rparr>"

text \<open>The document of one chunk, as the callback of \<^verbatim>\<open>chunks.map\<close> builds it.\<close>

definition chunk_doc ::
  "jsstring \<Rightarrow> jsstring \<Rightarrow> jsstring list \<Rightarrow> jsstring \<Rightarrow> nat \<Rightarrow> nat \<Rightarrow>
   TextChunk \<Rightarrow> nat \<Rightarrow> real list \<Rightarrow> doc_fields" where
  "chunk_doc ttl cat tgs uid parentId n chunk i emb =
     \<lparr>title = ttl @ js '' (Chunk '' @ show_nat (i + 1) @ js ''/'' @ show_nat n @ js '')'',
      content = chunk_text chunk,
      category = cat,
      tags = tgs,
      embedding = emb,
      uploadedBy = uid,
      isPublic = True,
      isChunk = True,
      parentDocumentId = Some parentId,
      chunkIndex = Some (index chunk),
      chunkCount = Some n\<rparr>"

text \<open>The single document of a short text.\<close>

definition single_doc ::
  "jsstring \<Rightarrow> jsstring \<Rightarrow> jsstring \<Rightarrow> jsstring list \<Rightarrow> jsstring \<Rightarrow> real list \<Rightarrow> doc_fields" where
  "single_doc ttl cleanedContent cat tgs uid emb =
     \<lparr>title = ttl,
      content = cleanedContent,
      category = cat,
      tags = tgs,
      embedding = emb,
      uploadedBy = uid,
      isPublic = True,
      isChunk = False,
      parentDocumentId = None,
      chunkIndex = None,
      chunkCount = None\<rparr>"

text \<open>
  One promise of \<^verbatim>\<open>chunkPromises\<close>: embed the chunk, then create its document. The
  promises do not depend on each other, and a promise that is rejected does not stop
  the others; \<^verbatim>\<open>Promise.all\<close> is rejected when one of them is. The state is the
  error that rejects \<^verbatim>\<open>Promise.all\<close>, if any, and the store. The promises are run
  here in the order of the chunks, and the error kept is that of the first chunk
  that fails.
\<close>

definition save_chunk ::
  "world \<Rightarrow> (TextChunk \<Rightarrow> nat \<Rightarrow> real list \<Rightarrow> doc_fields) \<Rightarrow> TextChunk \<times> nat \<Rightarrow>
   error option \<times> store \<Rightarrow> error option \<times> store" where
  "save_chunk w mk ci acc =
     (case generateEmbedding w (chunk_text (fst ci)) of
        Inl e \<Rightarrow> (case fst acc of None \<Rightarrow> Some e | Some e0 \<Rightarrow> Some e0, snd acc)
      | Inr emb \<Rightarrow>
          (case create w (snd acc) (mk (fst ci) (snd ci) emb) of
             Inl e \<Rightarrow> (case fst acc of None \<Rightarrow> Some e | Some e0 \<Rightarrow> Some e0, snd acc)
           | Inr (_, st') \<Rightarrow> (fst acc, st')))"

text \<open>
  \<^verbatim>\<open>processAndSaveDocument\<close>. The result is \<open>None\<close> when \<^verbatim>\<open>chunkText\<close> has not
  returned within the iteration bound; otherwise it is what the call returns or
  throws, and the store after the call. \<^verbatim>\<open>embedding || []\<close> replaces \<^verbatim>\<open>null\<close>,
  which \<^verbatim>\<open>generateEmbedding\<close> never returns, so it is the embedding itself.
\<close>

definition processAndSaveDocument ::
  "world \<Rightarrow> nat \<Rightarrow> jsstring \<Rightarrow> jsstring \<Rightarrow> jsstring \<Rightarrow> jsstring option \<Rightarrow>
   jsstring list option \<Rightarrow> store \<Rightarrow> ((error + ingest_result) \<times> store) option" where
  "processAndSaveDocument w fuel ttl cont uid cat0 tags0 st =
     (let cleanedContent = cleanText cont;
          cat = category_or_other cat0;
          tgs = tags_or_empty tags0;
          needsChunking = (length cleanedContent > 2000)
      in if needsChunking then
           (case chunkText fuel cleanedContent 1000 200 of
              None \<Rightarrow> None
            | Some chunks \<Rightarrow>
                (case create w st (parent_doc ttl cleanedContent cat tgs uid (length chunks)) of
                   Inl e \<Rightarrow> Some (Inl e, st)
                 | Inr (parentId, st1) \<Rightarrow>
                     (case fold (save_chunk w (chunk_doc ttl cat tgs uid parentId (length chunks)))
                                (zip chunks [0..<length chunks]) (None, st1) of
                        (Some e, st2) \<Rightarrow> Some (Inl e, st2)
                      | (None, st2) \<Rightarrow>
                          Some (Inr \<lparr>res_id = parentId, res_title = ttl, res_category = cat,
                                     chunksCreated = Some (length chunks)\<rparr>, st2))))
         else
           (case generateEmbedding w cleanedContent of
              Inl e \<Rightarrow> Some (Inl e, st)
            | Inr emb \<Rightarrow>
                (case create w st (single_doc ttl cleanedContent cat tgs uid emb) of
                   Inl e \<Rightarrow> Some (Inl e, st)
                 | Inr (docId, st1) \<Rightarrow>
                     Some (Inr \<lparr>res_id = docId, res_title = ttl, res_category = cat,
                                chunksCreated = None\<rparr>, st1))))"

section \<open>Answering: \<^verbatim>\<open>askQuestion\<close>\<close>




















text \<open>
  A world to run the code in: both keys are set, the embedding service answers with
  1024 zeros, the store accepts every document, both searches find nothing, the
  generation service answers \<^verbatim>\<open>ok\<close>, and the chat history can be read and saved.
\<close>

definition services_up :: world where
  "services_up =
     \<lparr>VOYAGE_API_KEY = True,
      voyage_post = (\<lambda>txt. Responded (Some (replicate 1024 0))),
      db_accepts = (\<lambda>d. True),
      vectorSearch = (\<lambda>v limit. Some []),
      findSimilar = (\<lambda>q limit. Some []),
      GEMINI_API_KEY = True,
      generateContent = (\<lambda>q ctx lang md. Generated (js ''ok'')),
      history_find_ok = True,
      history_save_ok = True,
      now = 0\<rparr>"


text \<open>
  What the promises of \<^verbatim>\<open>chunkPromises\<close> leave behind when the store accepts every
  document: the documents of the chunks whose embedding was returned, and the error
  of the first chunk whose embedding failed.
\<close>

definition embedded_docs ::
  "world \<Rightarrow> (TextChunk \<Rightarrow> nat \<Rightarrow> real list \<Rightarrow> doc_fields) \<Rightarrow> (TextChunk \<times> nat) list \<Rightarrow>
   doc_fields list" where
  "embedded_docs w mk cks =
     List.map_filter
       (\<lambda>ci. case generateEmbedding w (chunk_text (fst ci)) of
                Inl e \<Rightarrow> None
              | Inr emb \<Rightarrow> Some (mk (fst ci) (snd ci) emb))
       cks"

fun first_embedding_error :: "world \<Rightarrow> (TextChunk \<times> nat) list \<Rightarrow> error option" where
  "first_embedding_error w [] = None"
| "first_embedding_error w (ci # cks) =
     (case generateEmbedding w (chunk_text (fst ci)) of
        Inl e \<Rightarrow> Some e
      | Inr emb \<Rightarrow> first_embedding_error w cks)"

text \<open>
  The invariant of the output of the two replacements of blanks and newlines that
  makes a second pass change nothing: no two spaces in a row, and no three newlines
  in a row.
\<close>

abbreviation no_space_pair :: "jschar \<Rightarrow> jschar \<Rightarrow> bool" where
  "no_space_pair c d \<equiv> \<not> (c = SP \<and> d = SP)"

fun nl_ok :: "jsstring \<Rightarrow> bool" where
  "nl_ok [] = True"
| "nl_ok (c # cs) = ((c \<noteq> LF \<or> length (takeWhile (\<lambda>d. d = LF) cs) < 2) \<and> nl_ok cs)"

text \<open>
  The number of iterations that the loop of \<^verbatim>\<open>chunkText\<close> still makes, for the
  sizes 1000 and 200, when \<open>d\<close> characters lie between the cursor and the end.
\<close>

definition iters_bound :: "int \<Rightarrow> nat" where
  "iters_bound d =
     (if d \<le> 0 then 0 else if d \<le> 200 then 1 else if d \<le> 1000 then 2
      else nat ((d - 1001) div 602) + 3)"

section \<open>The single-chunk short cut\<close>

text \<open>
  Claim C6. When the normalised text is at most \<^verbatim>\<open>chunkSize\<close> long,
  \<^verbatim>\<open>chunkText\<close> returns exactly one chunk: its text is the normalised text, its
  index is 0, it starts at offset 0 and ends at the normalised length. The loop is
  not entered, so this holds for every iteration bound.
\<close>

theorem chunkText_single_chunk:
  assumes "int (length (cleanText s)) \<le> chunkSize"
  shows "chunkText fuel s chunkSize overlap =
           Some [\<lparr>chunk_text = cleanText s, index = 0, startChar = 0,
                  endChar = int (length (cleanText s))\<rparr>]"
  using assms by (simp add: chunkText_def Let_def)

text \<open>The text \<^verbatim>\<open>" a \\t b\\r\\n"\<close> normalises to \<^verbatim>\<open>"a b"\<close> and is one chunk.\<close>

theorem chunkText_single_chunk_witness:
  "int (length (cleanText [SP, 0x61, SP, TAB, SP, 0x62, CR, LF])) \<le> 1000 \<and>
   chunkText 0 [SP, 0x61, SP, TAB, SP, 0x62, CR, LF] 1000 200 =
     Some [\<lparr>chunk_text = [0x61, SP, 0x62], index = 0, startChar = 0, endChar = 3\<rparr>]"
proof -
  have c: "cleanText [SP, 0x61, SP, TAB, SP, 0x62, CR, LF] = [0x61, SP, 0x62]"
    by (simp add: cleanText_def trim_def replace_cr_def is_blank_def is_white_def)
  have h: "int (length (cleanText [SP, 0x61, SP, TAB, SP, 0x62, CR, LF])) \<le> 1000"
    by (simp add: c)
  show ?thesis
    using h chunkText_single_chunk [OF h, of 0 200] by (simp add: c)
qed

section \<open>Normalisation is idempotent\<close>

lemma replace_crlf_id: "CR \<notin> set s \<Longrightarrow> replace_crlf s = s"
  by (induction s rule: replace_crlf.induct) auto

lemma replace_cr_id: "CR \<notin> set s \<Longrightarrow> replace_cr s = s"
  by (induction s) (auto simp: replace_cr_def)

lemma replace_cr_no_CR: "CR \<notin> set (replace_cr s)"
  by (auto simp: replace_cr_def)

lemma set_collapse_blanks: "set (collapse_blanks s) \<subseteq> insert SP (set s)"
  by (induction s rule: collapse_blanks.induct) (auto dest: set_dropWhileD)

lemma collapse_blanks_no_TAB: "TAB \<notin> set (collapse_blanks s)"
  by (induction s rule: collapse_blanks.induct) (auto simp: is_blank_def)

lemma collapse_blanks_Nil_iff: "collapse_blanks s = [] \<longleftrightarrow> s = []"
  by (cases s) auto

lemma hd_collapse_blanks: "\<not> is_blank (hd s) \<Longrightarrow> hd (collapse_blanks s) = hd s"
  by (cases s) auto

lemma dropWhile_hd: "dropWhile P s \<noteq> [] \<Longrightarrow> \<not> P (hd (dropWhile P s))"
  by (metis hd_dropWhile)

lemma collapse_blanks_successively: "successively no_space_pair (collapse_blanks s)"
proof (induction s rule: collapse_blanks.induct)
  case 1
  then show ?case by simp
next
  case (2 c cs)
  show ?case
  proof (cases "is_blank c")
    case True
    let ?rest = "dropWhile is_blank cs"
    have "?rest = [] \<or> hd (collapse_blanks ?rest) \<noteq> SP"
    proof (cases "?rest = []")
      case False
      then have nb: "\<not> is_blank (hd ?rest)" by (rule dropWhile_hd)
      then have "hd (collapse_blanks ?rest) = hd ?rest" by (rule hd_collapse_blanks)
      with nb show ?thesis by (auto simp: is_blank_def)
    qed simp
    with True 2 show ?thesis
      by (auto simp: successively_Cons collapse_blanks_Nil_iff)
  next
    case False
    then have "c \<noteq> SP" by (simp add: is_blank_def)
    with False 2 show ?thesis
      by (auto simp: successively_Cons)
  qed
qed

lemma collapse_blanks_id:
  "TAB \<notin> set s \<Longrightarrow> successively no_space_pair s \<Longrightarrow> collapse_blanks s = s"
proof (induction s rule: collapse_blanks.induct)
  case 1
  then show ?case by simp
next
  case (2 c cs)
  show ?case
  proof (cases "is_blank c")
    case True
    with 2(3) have c: "c = SP" by (auto simp: is_blank_def)
    have d: "dropWhile is_blank cs = cs"
      using 2(3,4) c by (cases cs) (auto simp: is_blank_def)
    have "successively no_space_pair cs" using 2(4) by (auto simp: successively_Cons)
    with 2(1) [OF True] 2(3) d c True show ?thesis by simp
  next
    case False
    have "successively no_space_pair cs" using 2(4) by (auto simp: successively_Cons)
    with 2(2) [OF False] 2(3) False show ?thesis by simp
  qed
qed

lemma set_collapse_newlines: "set (collapse_newlines s) \<subseteq> set s"
proof (induction s rule: collapse_newlines.induct)
  case 1
  then show ?case by simp
next
  case (2 c cs)
  have "set (dropWhile (\<lambda>d. d = LF) cs) \<subseteq> set cs" "set (takeWhile (\<lambda>d. d = LF) cs) \<subseteq> set cs"
    by (auto dest: set_dropWhileD set_takeWhileD)
  with 2 show ?case by (auto split: if_splits)
qed

lemma collapse_newlines_Nil_iff: "collapse_newlines s = [] \<longleftrightarrow> s = []"
  by (cases s) auto

lemma hd_collapse_newlines: "hd (collapse_newlines s) = hd s"
  by (cases s) auto

lemma successively_suffix: "successively P (xs @ ys) \<Longrightarrow> successively P ys"
  by (simp add: successively_append_iff)

lemma successively_prefix: "successively P (xs @ ys) \<Longrightarrow> successively P xs"
  by (simp add: successively_append_iff)

lemma successively_dropWhile: "successively P xs \<Longrightarrow> successively P (dropWhile Q xs)"
  by (metis successively_suffix takeWhile_dropWhile_id)

lemma successively_all_LF: "\<forall>x\<in>set xs. x = LF \<Longrightarrow> successively no_space_pair xs"
  by (induction xs) (auto simp: successively_Cons)

lemma collapse_newlines_successively:
  "successively no_space_pair s \<Longrightarrow> successively no_space_pair (collapse_newlines s)"
proof (induction s rule: collapse_newlines.induct)
  case 1
  then show ?case by simp
next
  case (2 c cs)
  let ?run = "takeWhile (\<lambda>d. d = LF) cs"
  let ?rest = "dropWhile (\<lambda>d. d = LF) cs"
  have cs: "successively no_space_pair cs" using 2(4) by (auto simp: successively_Cons)
  show ?case
  proof (cases "c = LF")
    case True
    have rest: "successively no_space_pair ?rest" using cs by (rule successively_dropWhile)
    have run: "successively no_space_pair ?run"
      by (rule successively_all_LF) (auto dest: set_takeWhileD)
    have lastrun: "?run \<noteq> [] \<Longrightarrow> last ?run = LF"
      by (metis (mono_tags, lifting) last_in_set set_takeWhileD)
    show ?thesis
    proof (cases "2 \<le> length ?run")
      case long: True
      with True 2(1) rest show ?thesis by (simp add: successively_Cons)
    next
      case short: False
      with True 2(2) rest have "successively no_space_pair (collapse_newlines ?rest)" by simp
      with run lastrun have "successively no_space_pair (?run @ collapse_newlines ?rest)"
        by (auto simp: successively_append_iff)
      with True short show ?thesis by (simp add: successively_Cons)
    qed
  next
    case False
    with 2(3) cs have "successively no_space_pair (collapse_newlines cs)" by simp
    moreover have "cs \<noteq> [] \<Longrightarrow> no_space_pair c (hd cs)" using 2(4) by (auto simp: successively_Cons)
    ultimately show ?thesis using False
      by (auto simp: successively_Cons collapse_newlines_Nil_iff hd_collapse_newlines)
  qed
qed

lemma takeWhile_LF_collapse_rest:
  "takeWhile (\<lambda>d. d = LF) (collapse_newlines (dropWhile (\<lambda>d. d = LF) cs)) = []"
proof (cases "dropWhile (\<lambda>d. d = LF) cs")
  case Nil
  then show ?thesis by (simp del: dropWhile_eq_Nil_conv)
next
  case (Cons a as)
  then have "a \<noteq> LF" using dropWhile_hd [of "\<lambda>d. d = LF" cs] by simp
  with Cons show ?thesis by simp
qed

lemma collapse_newlines_nl_ok: "nl_ok (collapse_newlines s)"
proof (induction s rule: collapse_newlines.induct)
  case 1
  then show ?case by simp
next
  case (2 c cs)
  let ?run = "takeWhile (\<lambda>d. d = LF) cs"
  let ?rest = "dropWhile (\<lambda>d. d = LF) cs"
  show ?case
  proof (cases "c = LF")
    case True
    show ?thesis
    proof (cases "2 \<le> length ?run")
      case long: True
      with True 2(1) show ?thesis by (simp add: takeWhile_LF_collapse_rest)
    next
      case short: False
      have all: "\<forall>x\<in>set ?run. x = LF" by (auto dest: set_takeWhileD)
      have "?run = [] \<or> ?run = [LF]"
      proof (cases ?run)
        case Nil
        then show ?thesis by simp
      next
        case (Cons a as)
        with short have "as = []" by (cases as) simp_all
        moreover from all Cons have "a = LF" by simp
        ultimately show ?thesis using Cons by simp
      qed
      with True short 2(2) show ?thesis
        by (auto simp: takeWhile_LF_collapse_rest)
    qed
  next
    case False
    with 2(3) show ?thesis by simp
  qed
qed

lemma nl_ok_suffix: "nl_ok (xs @ ys) \<Longrightarrow> nl_ok ys"
  by (induction xs) auto

lemma length_takeWhile_append_le:
  "length (takeWhile P xs) \<le> length (takeWhile P (xs @ ys))"
  by (induction xs) auto

lemma nl_ok_prefix: "nl_ok (xs @ ys) \<Longrightarrow> nl_ok xs"
proof (induction xs)
  case Nil
  then show ?case by simp
next
  case (Cons x xs)
  then show ?case
    using length_takeWhile_append_le [of "\<lambda>d. d = LF" xs ys] by auto
qed

lemma nl_ok_dropWhile: "nl_ok cs \<Longrightarrow> nl_ok (dropWhile P cs)"
  by (metis nl_ok_suffix takeWhile_dropWhile_id)

lemma collapse_newlines_id: "nl_ok s \<Longrightarrow> collapse_newlines s = s"
proof (induction s rule: collapse_newlines.induct)
  case 1
  then show ?case by simp
next
  case (2 c cs)
  show ?case
  proof (cases "c = LF")
    case True
    with 2(4) have short: "\<not> 2 \<le> length (takeWhile (\<lambda>d. d = LF) cs)" by simp
    have "nl_ok (dropWhile (\<lambda>d. d = LF) cs)" using 2(4) by (simp add: nl_ok_dropWhile)
    with 2(2) [OF True short] True short show ?thesis by simp
  next
    case False
    with 2 show ?thesis by simp
  qed
qed

lemma trim_infix: "\<exists>a b. s = a @ trim s @ b"
proof -
  let ?y = "dropWhile is_white s"
  have "s = takeWhile is_white s @ ?y" by simp
  moreover have "rev ?y = takeWhile is_white (rev ?y) @ dropWhile is_white (rev ?y)" by simp
  then have "?y = trim s @ rev (takeWhile is_white (rev ?y))"
    unfolding trim_def by (metis rev_append rev_rev_ident)
  ultimately show ?thesis by metis
qed

lemma trim_fixed: "s = [] \<or> (\<not> is_white (hd s) \<and> \<not> is_white (last s)) \<Longrightarrow> trim s = s"
proof (cases s)
  case Nil
  then show ?thesis by (simp add: trim_def)
next
  case (Cons a as)
  assume "s = [] \<or> (\<not> is_white (hd s) \<and> \<not> is_white (last s))"
  with Cons have h: "\<not> is_white (hd s)" and l: "\<not> is_white (last s)" by auto
  from Cons h have 1: "dropWhile is_white s = s" by simp
  from Cons l have 2: "dropWhile is_white (rev s) = rev s"
    by (metis dropWhile_eq_self_iff hd_rev)
  show ?thesis by (simp add: trim_def 1 2)
qed

lemma trim_ends: "trim s = [] \<or> (\<not> is_white (hd (trim s)) \<and> \<not> is_white (last (trim s)))"
proof (cases "trim s = []")
  case True
  then show ?thesis by simp
next
  case False
  let ?y = "dropWhile is_white s"
  let ?z = "dropWhile is_white (rev ?y)"
  from False have z: "?z \<noteq> []" by (simp add: trim_def)
  then have y: "?y \<noteq> []" by (metis dropWhile.simps(1) rev_is_Nil_conv)
  have l: "\<not> is_white (last (trim s))"
    using z dropWhile_hd [of is_white "rev ?y"] by (simp add: trim_def last_rev)
  have "\<exists>w. ?y = trim s @ w"
    unfolding trim_def by (metis rev_append rev_rev_ident takeWhile_dropWhile_id)
  then obtain w where w: "?y = trim s @ w" by blast
  with False have "hd ?y = hd (trim s)" by (metis hd_append2)
  with y dropWhile_hd [of is_white s] have "\<not> is_white (hd (trim s))" by simp
  with l show ?thesis by simp
qed

lemma trim_trim: "trim (trim s) = trim s"
  using trim_ends [of s] by (rule trim_fixed)

lemma cleanText_fixed: "cleanText (cleanText s) = cleanText s"
proof -
  let ?m = "collapse_newlines (collapse_blanks (replace_cr (replace_crlf s)))"
  let ?r = "cleanText s"
  have r: "?r = trim ?m" by (simp add: cleanText_def)
  obtain a b where ab: "?m = a @ ?r @ b" using trim_infix [of ?m] r by metis
  have sub: "set ?r \<subseteq> set ?m" using ab by (metis Un_iff set_append subsetI)
  have "set ?m \<subseteq> insert SP (set (replace_cr (replace_crlf s)))"
    using set_collapse_newlines set_collapse_blanks by blast
  then have "CR \<notin> set ?m" using replace_cr_no_CR [of "replace_crlf s"] by auto
  with sub have cr: "CR \<notin> set ?r" by auto
  have "TAB \<notin> set ?m"
    using set_collapse_newlines collapse_blanks_no_TAB by blast
  with sub have tab: "TAB \<notin> set ?r" by auto
  have "successively no_space_pair ?m"
    by (intro collapse_newlines_successively collapse_blanks_successively)
  then have sp: "successively no_space_pair ?r"
    using ab by (metis successively_prefix successively_suffix)
  have "nl_ok ?m" by (rule collapse_newlines_nl_ok)
  then have nl: "nl_ok ?r" using ab by (metis nl_ok_prefix nl_ok_suffix)
  have "cleanText ?r = trim (collapse_newlines (collapse_blanks (replace_cr (replace_crlf ?r))))"
    by (simp add: cleanText_def)
  also have "\<dots> = trim ?r"
    by (simp only: replace_crlf_id [OF cr] replace_cr_id [OF cr] collapse_blanks_id [OF tab sp]
        collapse_newlines_id [OF nl])
  also have "\<dots> = ?r" unfolding r by (rule trim_trim)
  finally show ?thesis .
qed

text \<open>
  Claim C7. \<^verbatim>\<open>cleanText\<close> turns \<^verbatim>\<open>\\r\\n\<close> and \<^verbatim>\<open>\\r\<close> into \<^verbatim>\<open>\\n\<close>, every
  run of spaces and tabs into one space and every run of three or more newlines into
  two, and trims the result. Normalising a normalised text changes nothing.
\<close>

theorem cleanText_idempotent: "cleanText (cleanText s) = cleanText s"
  by (rule cleanText_fixed)

section \<open>The length of a chunk\<close>

lemma length_trim_le: "length (trim s) \<le> length s"
proof -
  have "length (trim s) \<le> length (dropWhile is_white s)"
    using length_dropWhile_le [of is_white "rev (dropWhile is_white s)"]
    by (simp add: trim_def)
  also have "\<dots> \<le> length s" by (rule length_dropWhile_le)
  finally show ?thesis .
qed

lemma length_substring_le:
  "a \<le> b \<Longrightarrow> int (length (substring s a b)) \<le> max b 0 - max a 0"
  by (auto simp: substring_def Let_def min_def max_def)

lemma last_match_le: "last_match s pat k \<le> int k"
  by (induction k) auto

lemma lastIndexOf_le: "lastIndexOf s pat pos \<le> max pos 0"
  using last_match_le [of s pat "nat (min (max pos 0) (int (length s)))"]
  by (simp add: lastIndexOf_def)

lemma ender_step_le:
  assumes "length ender = 2" and "searchStart \<le> target" and "fst best \<le> max (target + 2) (- 1)"
  shows "fst (ender_step searchText searchStart target ender best) \<le> max (target + 2) (- 1)"
  using assms lastIndexOf_le [of searchText ender "target - searchStart"]
  by (auto simp: ender_step_def Let_def)

lemma fold_ender_step_le:
  assumes "\<forall>e\<in>set es. length e = 2" and "searchStart \<le> target"
    and "fst best \<le> max (target + 2) (- 1)"
  shows "fst (fold (ender_step searchText searchStart target) es best) \<le> max (target + 2) (- 1)"
  using assms
proof (induction es arbitrary: best)
  case Nil
  then show ?case by simp
next
  case (Cons e es)
  then show ?case by (simp add: ender_step_le)
qed

lemma sentenceEnders_length: "\<forall>e\<in>set sentenceEnders. length e = 2"
  by (simp add: sentenceEnders_def)

lemma findSentenceEnd_le:
  assumes "start \<le> target"
  shows "findSentenceEnd txt start target \<le> max (target + 2) (- 1)"
proof -
  let ?ss = "max start (target - 200)"
  have "?ss \<le> target" using assms by simp
  then have "fst (fold (ender_step (substring txt ?ss (min (int (length txt)) (target + 100))) ?ss target)
               sentenceEnders (- 1, None)) \<le> max (target + 2) (- 1)"
    by (intro fold_ender_step_le sentenceEnders_length) auto
  then show ?thesis by (auto simp: findSentenceEnd_def Let_def)
qed

lemma cut_point_bounds:
  assumes "0 \<le> chunkSize" and "startC < int (length cleanedText)"
  shows "startC \<le> cut_point cleanedText chunkSize startC"
    and "cut_point cleanedText chunkSize startC \<le> max (startC + chunkSize + 2) (- 1)"
  using assms findSentenceEnd_le [of startC "startC + chunkSize" cleanedText]
  by (auto simp: cut_point_def Let_def min_def)

lemma chunk_step_chunks:
  "snd (snd (chunk_step cleanedText chunkSize overlap (startC, idx, chunks))) =
     (let endC = cut_point cleanedText chunkSize startC;
          chunkTxt = trim (substring cleanedText startC endC)
      in if chunkTxt \<noteq> []
         then chunks @ [\<lparr>chunk_text = chunkTxt, index = idx, startChar = startC, endChar = endC\<rparr>]
         else chunks)"
  by (simp add: chunk_step_def cut_point_def Let_def)

lemma chunk_step_bound:
  assumes "0 \<le> chunkSize" and "startC < int (length cleanedText)"
    and "\<forall>c\<in>set chunks. int (length (chunk_text c)) \<le> chunkSize + 2"
  shows "\<forall>c\<in>set (snd (snd (chunk_step cleanedText chunkSize overlap (startC, idx, chunks)))).
           int (length (chunk_text c)) \<le> chunkSize + 2"
proof -
  let ?e = "cut_point cleanedText chunkSize startC"
  have "int (length (trim (substring cleanedText startC ?e))) \<le> int (length (substring cleanedText startC ?e))"
    using length_trim_le by simp
  also have "\<dots> \<le> max ?e 0 - max startC 0"
    using cut_point_bounds(1) [OF assms(1,2)] by (rule length_substring_le)
  also have "\<dots> \<le> chunkSize + 2"
    using cut_point_bounds(2) [OF assms(1,2)] assms(1) by auto
  finally show ?thesis using assms(3) by (simp add: chunk_step_chunks Let_def)
qed

lemma chunk_loop_bound:
  assumes "0 \<le> chunkSize"
    and "chunk_loop fuel cleanedText chunkSize overlap st = Some cs"
    and "\<forall>c\<in>set (snd (snd st)). int (length (chunk_text c)) \<le> chunkSize + 2"
  shows "\<forall>c\<in>set cs. int (length (chunk_text c)) \<le> chunkSize + 2"
  using assms(2,3)
proof (induction fuel arbitrary: st)
  case 0
  then show ?case by (auto split: if_splits)
next
  case (Suc fuel)
  obtain startC idx chunks where st: "st = (startC, idx, chunks)" by (cases st)
  show ?case
  proof (cases "startC < int (length cleanedText)")
    case True
    with Suc.prems st
    have "chunk_loop fuel cleanedText chunkSize overlap
            (chunk_step cleanedText chunkSize overlap (startC, idx, chunks)) = Some cs"
      by simp
    moreover have "\<forall>c\<in>set (snd (snd (chunk_step cleanedText chunkSize overlap (startC, idx, chunks)))).
           int (length (chunk_text c)) \<le> chunkSize + 2"
      using assms(1) True Suc.prems(2) st by (intro chunk_step_bound) auto
    ultimately show ?thesis by (rule Suc.IH)
  next
    case False
    with Suc.prems st show ?thesis by auto
  qed
qed

lemma chunkText_bound:
  assumes "0 \<le> chunkSize" and "chunkText fuel s chunkSize overlap = Some cs" and "c \<in> set cs"
  shows "int (length (chunk_text c)) \<le> chunkSize + 2"
proof (cases "int (length (cleanText s)) \<le> chunkSize")
  case True
  with assms show ?thesis by (auto simp: chunkText_def Let_def)
next
  case False
  with assms(2) have "chunk_loop fuel (cleanText s) chunkSize overlap (0, 0, []) = Some cs"
    by (simp add: chunkText_def Let_def)
  from chunk_loop_bound [OF assms(1) this] assms(3) show ?thesis by simp
qed

section \<open>Termination of the chunking loop\<close>

lemma iters_bound_mono: "d \<le> d' \<Longrightarrow> iters_bound d \<le> iters_bound d'"
  unfolding iters_bound_def
  by (auto simp: nat_le_iff intro!: zdiv_mono1 nat_mono)

lemma iters_bound_step: "1000 < d \<Longrightarrow> Suc (iters_bound (d - 602)) \<le> iters_bound d"
  unfolding iters_bound_def by (auto simp: nat_le_iff)

lemma iters_bound_le: "0 \<le> d \<Longrightarrow> int (iters_bound d) \<le> (d + 601) div 602 + 1"
  unfolding iters_bound_def by auto

lemma last_match_ge: "- 1 \<le> last_match s pat k"
  by (induction k) auto

lemma lastIndexOf_ge: "- 1 \<le> lastIndexOf s pat pos"
  by (simp add: lastIndexOf_def last_match_ge)

lemma ender_step_ge:
  assumes "length ender = 2" and "fst best = - 1 \<or> searchStart + 2 \<le> fst best"
  shows "fst (ender_step searchText searchStart target ender best) = - 1 \<or>
         searchStart + 2 \<le> fst (ender_step searchText searchStart target ender best)"
  using assms lastIndexOf_ge [of searchText ender "target - searchStart"]
  by (auto simp: ender_step_def Let_def)

lemma fold_ender_step_ge:
  assumes "\<forall>e\<in>set es. length e = 2" and "fst best = - 1 \<or> searchStart + 2 \<le> fst best"
  shows "fst (fold (ender_step searchText searchStart target) es best) = - 1 \<or>
         searchStart + 2 \<le> fst (fold (ender_step searchText searchStart target) es best)"
  using assms
proof (induction es arbitrary: best)
  case Nil
  then show ?case by simp
next
  case (Cons e es)
  show ?case
    using Cons.prems ender_step_ge [of e best searchStart searchText target]
    by (simp add: Cons.IH)
qed

lemma findSentenceEnd_ge:
  assumes "0 \<le> start"
  shows "findSentenceEnd txt start target = target \<or>
         max start (target - 200) + 2 \<le> findSentenceEnd txt start target"
proof -
  let ?ss = "max start (target - 200)"
  let ?b = "fst (fold (ender_step (substring txt ?ss (min (int (length txt)) (target + 100))) ?ss target)
               sentenceEnders (- 1, None))"
  have "?b = - 1 \<or> ?ss + 2 \<le> ?b"
    by (intro fold_ender_step_ge sentenceEnders_length) auto
  then show ?thesis using assms by (auto simp: findSentenceEnd_def Let_def)
qed

lemma trim_nonempty: "s \<noteq> [] \<Longrightarrow> \<not> is_white (last s) \<Longrightarrow> trim s \<noteq> []"
proof -
  assume s: "s \<noteq> []" and l: "\<not> is_white (last s)"
  then have "last s \<in> set s" by simp
  with l have d: "dropWhile is_white s \<noteq> []" by auto
  have "last (dropWhile is_white s) = last s"
    using s l by (intro dropWhile_last) auto
  with l d have "\<not> is_white (hd (rev (dropWhile is_white s)))" by (simp add: hd_rev)
  with d have "dropWhile is_white (rev (dropWhile is_white s)) \<noteq> []"
    by (metis dropWhile_eq_self_iff rev_is_Nil_conv)
  then show ?thesis by (simp add: trim_def)
qed

lemma cleanText_last: "cleanText s \<noteq> [] \<Longrightarrow> \<not> is_white (last (cleanText s))"
  using trim_ends [of "collapse_newlines (collapse_blanks (replace_cr (replace_crlf s)))"]
  by (simp add: cleanText_def)

lemma cut_point_inner:
  assumes "0 \<le> startC" and "startC + 1000 < int (length cleanedText)"
  shows "startC + 802 \<le> cut_point cleanedText 1000 startC"
  using assms findSentenceEnd_ge [OF assms(1), of cleanedText "startC + 1000"]
  by (auto simp: cut_point_def Let_def min_def)

lemma cut_point_final:
  assumes "int (length cleanedText) \<le> startC + chunkSize"
  shows "cut_point cleanedText chunkSize startC = int (length cleanedText)"
  using assms by (simp add: cut_point_def Let_def min_def)

lemma chunk_step_eq:
  "chunk_step cleanedText chunkSize overlap (startC, idx, chunks) =
     (let endC = cut_point cleanedText chunkSize startC;
          chunkTxt = trim (substring cleanedText startC endC);
          chunks' = (if chunkTxt \<noteq> []
             then chunks @ [\<lparr>chunk_text = chunkTxt, index = idx, startChar = startC, endChar = endC\<rparr>]
             else chunks);
          idx' = (if chunkTxt \<noteq> [] then idx + 1 else idx)
      in if chunks' \<noteq> [] \<and> endC - overlap \<le> startChar (last chunks')
         then (endC, idx', chunks') else (endC - overlap, idx', chunks'))"
  by (simp add: chunk_step_def cut_point_def Let_def)

lemma chunk_step_inner:
  assumes "0 \<le> startC" and "startC + 1000 < int (length cleanedText)"
  shows "startC + 602 \<le> fst (chunk_step cleanedText 1000 200 (startC, idx, chunks))"
    and "length (snd (snd (chunk_step cleanedText 1000 200 (startC, idx, chunks)))) \<le> Suc (length chunks)"
  using cut_point_inner [OF assms] by (auto simp: chunk_step_eq Let_def)

lemma substring_to_end:
  assumes "startC < int (length s)"
  shows "substring s startC (int (length s)) = drop (nat startC) s"
  using assms by (auto simp: substring_def Let_def min_def max_def)

lemma chunk_step_final:
  assumes "startC < int (length cleanedText)" and "int (length cleanedText) \<le> startC + 1000"
    and "\<not> is_white (last cleanedText)" and "0 \<le> startC"
  shows "fst (chunk_step cleanedText 1000 200 (startC, idx, chunks)) =
           (if int (length cleanedText) - 200 \<le> startC then int (length cleanedText)
            else int (length cleanedText) - 200)"
    and "length (snd (snd (chunk_step cleanedText 1000 200 (startC, idx, chunks)))) = Suc (length chunks)"
proof -
  let ?len = "int (length cleanedText)"
  have e: "cut_point cleanedText 1000 startC = ?len" using assms(2) by (rule cut_point_final)
  have sub: "substring cleanedText startC ?len = drop (nat startC) cleanedText"
    using assms(1) by (rule substring_to_end)
  have ne: "drop (nat startC) cleanedText \<noteq> []" using assms(1,4) by (simp add: not_le nat_less_iff)
  then have "last (drop (nat startC) cleanedText) = last cleanedText" by simp
  with ne assms(3) have t: "trim (drop (nat startC) cleanedText) \<noteq> []"
    by (intro trim_nonempty) auto
  show "fst (chunk_step cleanedText 1000 200 (startC, idx, chunks)) =
           (if ?len - 200 \<le> startC then ?len else ?len - 200)"
    using t by (simp add: chunk_step_eq e sub Let_def)
  show "length (snd (snd (chunk_step cleanedText 1000 200 (startC, idx, chunks)))) = Suc (length chunks)"
    using t by (simp add: chunk_step_eq e sub Let_def)
qed

lemma chunk_loop_terminates:
  assumes "cleanedText \<noteq> [] \<longrightarrow> \<not> is_white (last cleanedText)"
  shows "0 \<le> fst st \<Longrightarrow> iters_bound (int (length cleanedText) - fst st) \<le> fuel \<Longrightarrow>
         \<exists>cs. chunk_loop fuel cleanedText 1000 200 st = Some cs \<and>
              length cs \<le> length (snd (snd st)) + iters_bound (int (length cleanedText) - fst st)"
proof (induction fuel arbitrary: st)
  case 0
  then show ?case by (auto simp: iters_bound_def split: if_splits)
next
  case (Suc fuel)
  obtain startC idx chunks where st: "st = (startC, idx, chunks)" by (cases st)
  let ?len = "int (length cleanedText)"
  let ?st' = "chunk_step cleanedText 1000 200 (startC, idx, chunks)"
  show ?case
  proof (cases "startC < ?len")
    case False
    then show ?thesis using st by simp
  next
    case True
    have pos: "0 \<le> startC" using Suc.prems(1) st by simp
    with True have "cleanedText \<noteq> []" by auto
    then have ne: "\<not> is_white (last cleanedText)" using assms by auto
    have key: "0 \<le> fst ?st' \<and> Suc (iters_bound (?len - fst ?st')) \<le> iters_bound (?len - startC) \<and>
               length (snd (snd ?st')) \<le> Suc (length chunks)"
    proof (cases "startC + 1000 < ?len")
      case inner: True
      note s = chunk_step_inner [OF pos inner, of idx chunks]
      have "iters_bound (?len - fst ?st') \<le> iters_bound (?len - startC - 602)"
        using s(1) by (intro iters_bound_mono) simp
      moreover have "Suc (iters_bound (?len - startC - 602)) \<le> iters_bound (?len - startC)"
        using inner by (intro iters_bound_step) simp
      ultimately show ?thesis using s pos by simp
    next
      case final: False
      then have f: "?len \<le> startC + 1000" by simp
      note s = chunk_step_final [OF True f ne pos, of idx chunks]
      show ?thesis using s pos True f by (auto simp: iters_bound_def)
    qed
    from key Suc.prems(2) st have "iters_bound (?len - fst ?st') \<le> fuel" by simp
    with key Suc.IH [of ?st'] obtain cs where
      cs: "chunk_loop fuel cleanedText 1000 200 ?st' = Some cs"
        "length cs \<le> length (snd (snd ?st')) + iters_bound (?len - fst ?st')"
      by blast
    from cs(1) True st have "chunk_loop (Suc fuel) cleanedText 1000 200 st = Some cs" by simp
    moreover from cs(2) key st
    have "length cs \<le> length (snd (snd st)) + iters_bound (?len - fst st)" by simp
    ultimately show ?thesis by blast
  qed
qed

lemma chunkText_default_terminates:
  fixes s :: jsstring
  defines "bound \<equiv> (length (cleanText s) + 601) div 602 + 1"
  shows "\<exists>cs. chunkText (bound + k) s 1000 200 = Some cs \<and> length cs \<le> bound"
proof (cases "int (length (cleanText s)) \<le> 1000")
  case True
  then show ?thesis by (simp add: chunkText_def Let_def bound_def)
next
  case False
  let ?c = "cleanText s"
  have last: "?c \<noteq> [] \<longrightarrow> \<not> is_white (last ?c)" using cleanText_last by blast
  have b: "int (iters_bound (int (length ?c))) \<le> (int (length ?c) + 601) div 602 + 1"
    by (rule iters_bound_le) simp
  have "(int (length ?c) + 601) div 602 + 1 = int bound"
    by (simp add: bound_def zdiv_int)
  with b have ib: "iters_bound (int (length ?c)) \<le> bound" by linarith
  then have "iters_bound (int (length ?c) - fst (0::int, 0::nat, []::TextChunk list)) \<le> bound + k"
    by simp
  from chunk_loop_terminates [OF last _ this] obtain cs where
    "chunk_loop (bound + k) ?c 1000 200 (0, 0, []) = Some cs"
    "length cs \<le> iters_bound (int (length ?c))" by auto
  with False ib show ?thesis by (auto simp: chunkText_def Let_def)
qed

text \<open>
  Claim C5, as the code has it. With the sizes 1000 and 200, chunking any string
  terminates. The loop makes at most \<open>\<lceil>len / 602\<rceil> + 1\<close> iterations, where \<open>len\<close> is
  the length of the normalised text, and so it emits at most that many chunks: with
  that bound on the iterations, or any larger one, \<^verbatim>\<open>chunkText\<close> returns. A cut at
  a sentence boundary may lie 198 characters before the right edge of the window, so
  the cursor is only known to advance by 602, and the end of the text is visited
  twice when the last window is longer than the overlap.
\<close>

theorem chunkText_terminates:
  "\<exists>cs. chunkText ((length (cleanText s) + 601) div 602 + 1 + k) s 1000 200 = Some cs \<and>
        length cs \<le> (length (cleanText s) + 601) div 602 + 1"
  by (rule chunkText_default_terminates)

section \<open>Texts without white space\<close>

lemma collapse_blanks_no_blank: "\<forall>c\<in>set s. \<not> is_blank c \<Longrightarrow> collapse_blanks s = s"
  by (induction s) auto

lemma collapse_newlines_no_LF: "LF \<notin> set s \<Longrightarrow> collapse_newlines s = s"
  by (induction s) auto

lemma is_white_simps: "is_white CR" "is_white LF" "is_white SP" "is_white TAB"
  by (simp_all add: is_white_def)

lemma cleanText_white_free:
  assumes "\<forall>c\<in>set s. \<not> is_white c"
  shows "cleanText s = s"
proof -
  have cr: "CR \<notin> set s" and lf: "LF \<notin> set s" using assms is_white_simps by blast+
  have bl: "\<forall>c\<in>set s. \<not> is_blank c" using assms is_white_simps by (auto simp: is_blank_def)
  have "dropWhile is_white s = s" using assms by (intro dropWhile_id) auto
  moreover have "dropWhile is_white (rev s) = rev s" using assms by (intro dropWhile_id) auto
  ultimately have tr: "trim s = s" by (simp add: trim_def)
  show ?thesis
    by (simp add: cleanText_def replace_crlf_id [OF cr] replace_cr_id [OF cr]
        collapse_blanks_no_blank [OF bl] collapse_newlines_no_LF [OF lf] tr)
qed

lemma matches_at_set: "matches_at s pat k \<Longrightarrow> set pat \<subseteq> set s"
proof -
  assume "matches_at s pat k"
  then have "pat = take (length pat) (drop k s)" by (simp add: matches_at_def)
  then have "set pat \<subseteq> set (drop k s)" by (metis set_take_subset)
  then show ?thesis using set_drop_subset by fastforce
qed

lemma last_match_none: "\<not> set pat \<subseteq> set s \<Longrightarrow> last_match s pat k = - 1"
  by (induction k) (auto dest: matches_at_set)

lemma set_substring: "set (substring s a b) \<subseteq> set s"
  unfolding substring_def Let_def
  by (meson dual_order.trans set_drop_subset set_take_subset)

lemma ender_step_white_free:
  assumes "\<forall>c\<in>set searchText. \<not> is_white c" and "\<exists>c\<in>set ender. is_white c"
  shows "ender_step searchText searchStart target ender best = best"
proof -
  have "\<not> set ender \<subseteq> set searchText" using assms by blast
  then have "lastIndexOf searchText ender (target - searchStart) = - 1"
    by (simp add: lastIndexOf_def last_match_none)
  then show ?thesis by (simp add: ender_step_def)
qed

lemma fold_ender_step_white_free:
  assumes "\<forall>c\<in>set searchText. \<not> is_white c" and "\<forall>e\<in>set es. \<exists>c\<in>set e. is_white c"
  shows "fold (ender_step searchText searchStart target) es best = best"
  using assms(2) by (induction es) (simp_all add: ender_step_white_free [OF assms(1)])

lemma sentenceEnders_white: "\<forall>e\<in>set sentenceEnders. \<exists>c\<in>set e. is_white c"
  by (simp add: sentenceEnders_def is_white_def)

lemma findSentenceEnd_white_free:
  assumes "\<forall>c\<in>set txt. \<not> is_white c" and "0 \<le> start"
  shows "findSentenceEnd txt start target = target"
proof -
  let ?st = "substring txt (max start (target - 200)) (min (int (length txt)) (target + 100))"
  have "\<forall>c\<in>set ?st. \<not> is_white c" using assms(1) set_substring by blast
  then have "fold (ender_step ?st (max start (target - 200)) target) sentenceEnders (- 1, None)
               = (- 1, None)"
    using sentenceEnders_white by (rule fold_ender_step_white_free)
  then show ?thesis using assms(2) by (simp add: findSentenceEnd_def Let_def)
qed

lemma cut_point_white_free:
  assumes "\<forall>c\<in>set txt. \<not> is_white c" and "0 \<le> startC" and "0 \<le> chunkSize"
  shows "cut_point txt chunkSize startC = min (startC + chunkSize) (int (length txt))"
  using assms by (auto simp: cut_point_def Let_def findSentenceEnd_white_free)

lemma substring_replicate:
  assumes "0 \<le> a" and "a \<le> b" and "b \<le> int n"
  shows "substring (replicate n x) a b = replicate (nat (b - a)) x"
  using assms by (auto simp: substring_def Let_def min_def max_def)

lemma trim_replicate: "\<not> is_white x \<Longrightarrow> trim (replicate n x) = replicate n x"
  by (simp add: trim_def)

lemma chunk_step_replicate:
  assumes "\<not> is_white x" and "0 \<le> startC" and "startC < int n"
    and "endC = min (startC + 1000) (int n)"
  shows "chunk_step (replicate n x) 1000 200 (startC, idx, chunks) =
           (if endC - 200 \<le> startC then endC else endC - 200, idx + 1,
            chunks @ [\<lparr>chunk_text = replicate (nat (endC - startC)) x, index = idx,
                        startChar = startC, endChar = endC\<rparr>])"
proof -
  have wf: "\<forall>c\<in>set (replicate n x). \<not> is_white c" using assms(1) by simp
  have cp: "cut_point (replicate n x) 1000 startC = endC"
    using cut_point_white_free [OF wf assms(2), of 1000] assms(4) by simp
  have sub: "substring (replicate n x) startC endC = replicate (nat (endC - startC)) x"
    using assms(2,3,4) by (intro substring_replicate) auto
  have ne: "replicate (nat (endC - startC)) x \<noteq> []" using assms(3,4) by auto
  show ?thesis
    using ne by (simp add: chunk_step_eq cp sub trim_replicate [OF assms(1)] Let_def)
qed

lemma not_white_a: "\<not> is_white (0x61 :: jschar)"
  by (simp add: is_white_def)

lemma chunk_step_replicate_1001:
  fixes x :: jschar
  assumes "\<not> is_white x"
  shows "chunk_step (replicate 1001 x) 1000 200 (0, i, cs) =
           (800, Suc i, cs @ [\<lparr>chunk_text = replicate 1000 x, index = i,
                                startChar = 0, endChar = 1000\<rparr>])"
    and "chunk_step (replicate 1001 x) 1000 200 (800, i, cs) =
           (801, Suc i, cs @ [\<lparr>chunk_text = replicate 201 x, index = i,
                                startChar = 800, endChar = 1001\<rparr>])"
    and "chunk_step (replicate 1001 x) 1000 200 (801, i, cs) =
           (1001, Suc i, cs @ [\<lparr>chunk_text = replicate 200 x, index = i,
                                 startChar = 801, endChar = 1001\<rparr>])"
proof -
  have e1: "(1000::int) = min (0 + 1000) (int 1001)"
    and e2: "(1001::int) = min (800 + 1000) (int 1001)"
    and e3: "(1001::int) = min (801 + 1000) (int 1001)" by simp_all
  have "chunk_step (replicate 1001 x) 1000 200 (0, i, cs) =
          (if 1000 - 200 \<le> (0::int) then 1000 else 1000 - 200, i + 1,
           cs @ [\<lparr>chunk_text = replicate (nat (1000 - 0)) x, index = i,
                   startChar = 0, endChar = 1000\<rparr>])"
    by (rule chunk_step_replicate [OF assms _ _ e1]) simp_all
  then show "chunk_step (replicate 1001 x) 1000 200 (0, i, cs) =
           (800, Suc i, cs @ [\<lparr>chunk_text = replicate 1000 x, index = i,
                                startChar = 0, endChar = 1000\<rparr>])"
    by simp
  have "chunk_step (replicate 1001 x) 1000 200 (800, i, cs) =
          (if 1001 - 200 \<le> (800::int) then 1001 else 1001 - 200, i + 1,
           cs @ [\<lparr>chunk_text = replicate (nat (1001 - 800)) x, index = i,
                   startChar = 800, endChar = 1001\<rparr>])"
    by (rule chunk_step_replicate [OF assms _ _ e2]) simp_all
  then show "chunk_step (replicate 1001 x) 1000 200 (800, i, cs) =
           (801, Suc i, cs @ [\<lparr>chunk_text = replicate 201 x, index = i,
                                startChar = 800, endChar = 1001\<rparr>])"
    by simp
  have "chunk_step (replicate 1001 x) 1000 200 (801, i, cs) =
          (if 1001 - 200 \<le> (801::int) then 1001 else 1001 - 200, i + 1,
           cs @ [\<lparr>chunk_text = replicate (nat (1001 - 801)) x, index = i,
                   startChar = 801, endChar = 1001\<rparr>])"
    by (rule chunk_step_replicate [OF assms _ _ e3]) simp_all
  then show "chunk_step (replicate 1001 x) 1000 200 (801, i, cs) =
           (1001, Suc i, cs @ [\<lparr>chunk_text = replicate 200 x, index = i,
                                 startChar = 801, endChar = 1001\<rparr>])"
    by simp
qed

text \<open>
  A text of 1001 letters \<^verbatim>\<open>a\<close>: the bound \<open>\<lceil>1001 / (1000 - 200)\<rceil>\<close> is 2, the loop
  is still running after two iterations, and it returns three chunks after the third.
\<close>

theorem chunk_iterations_counterexample:
  "length (cleanText (replicate 1001 0x61)) = 1001 \<and>
   nat \<lceil>(1001 :: real) / (1000 - 200)\<rceil> = 2 \<and>
   chunkText 2 (replicate 1001 0x61) 1000 200 = None \<and>
   map_option length (chunkText 3 (replicate 1001 0x61) 1000 200) = Some 3"
proof -
  let ?t = "replicate 1001 (0x61 :: jschar)"
  note steps = chunk_step_replicate_1001 [OF not_white_a]
  have c: "cleanText ?t = ?t"
    by (rule cleanText_white_free) (simp add: not_white_a)
  have l2: "chunk_loop (Suc (Suc 0)) ?t 1000 200 (0, 0, []) = None"
    by (simp add: steps)
  have l3: "map_option length (chunk_loop (Suc (Suc (Suc 0))) ?t 1000 200 (0, 0, [])) = Some 3"
    by (simp add: steps)
  have ct: "chunkText fuel ?t 1000 200 = chunk_loop fuel ?t 1000 200 (0, 0, [])" for fuel
    by (simp add: chunkText_def c)
  have f1: "length (cleanText ?t) = 1001" unfolding c by simp
  have f2: "nat \<lceil>(1001 :: real) / (1000 - 200)\<rceil> = 2"
    by (simp add: ceiling_eq_iff)
  have f3: "chunkText 2 ?t 1000 200 = None"
    unfolding ct numeral_2_eq_2 by (rule l2)
  have f4: "map_option length (chunkText 3 ?t 1000 200) = Some 3"
    unfolding ct using l3 by (simp add: numeral_3_eq_3)
  from f1 f2 f3 f4 show ?thesis by (intro conjI)
qed

section \<open>The chunk length bound\<close>

text \<open>
  Claim C10. Every chunk that \<^verbatim>\<open>chunkText\<close> returns, for a chunk size that is not
  negative and any overlap, has a text of at most \<^verbatim>\<open>chunkSize + 2\<close> characters: the
  cut at a sentence boundary lies behind the two characters of the terminator, which
  may start at the right edge of the window. A chunk can be longer than
  \<^verbatim>\<open>chunkSize\<close>: for the text \<^verbatim>\<open>"abcd. efgh"\<close> and the chunk size 4 the first
  chunk is \<^verbatim>\<open>"abcd."\<close>.
\<close>

theorem chunk_length_bound:
  "(\<forall>fuel s chunkSize overlap chunks.
      0 \<le> chunkSize \<and> chunkText fuel s chunkSize overlap = Some chunks \<longrightarrow>
      (\<forall>c\<in>set chunks. int (length (chunk_text c)) \<le> chunkSize + 2)) \<and>
   (\<exists>fuel s chunkSize overlap chunks c.
      0 \<le> chunkSize \<and> chunkText fuel s chunkSize overlap = Some chunks \<and> c \<in> set chunks \<and>
      chunkSize < int (length (chunk_text c)))"
proof (intro conjI allI impI ballI)
  fix fuel s chunkSize overlap chunks c
  assume "0 \<le> chunkSize \<and> chunkText fuel s chunkSize overlap = Some chunks" and "c \<in> set chunks"
  then show "int (length (chunk_text c)) \<le> chunkSize + 2"
    using chunkText_bound by blast
next
  let ?s = "[0x61, 0x62, 0x63, 0x64, DOT, SP, 0x65, 0x66, 0x67, 0x68] :: jsstring"
  let ?c = "\<lparr>chunk_text = [0x61, 0x62, 0x63, 0x64, DOT], index = 0, startChar = 0, endChar = 6\<rparr>"
  let ?cs = "[?c,
           \<lparr>chunk_text = [0x65, 0x66, 0x67], index = 1, startChar = 5, endChar = 9\<rparr>,
           \<lparr>chunk_text = [0x67, 0x68], index = 2, startChar = 8, endChar = 10\<rparr>,
           \<lparr>chunk_text = [0x68], index = 3, startChar = 9, endChar = 10\<rparr>]"
  have "chunkText 4 ?s 4 1 = Some ?cs" by code_simp
  moreover have "?c \<in> set ?cs" by simp
  moreover have "(4::int) < int (length (chunk_text ?c))" by simp
  ultimately show "\<exists>fuel s chunkSize overlap chunks c.
      0 \<le> chunkSize \<and> chunkText fuel s chunkSize overlap = Some chunks \<and> c \<in> set chunks \<and>
      chunkSize < int (length (chunk_text c))"
    by (intro exI [of _ 4] exI [of _ ?s] exI [of _ 1] exI [of _ ?cs] exI [of _ ?c]) simp
qed

theorem chunk_length_bound_witness:
  "(0::int) \<le> 4 \<and>
   chunkText 4 [0x61, 0x62, 0x63, 0x64, DOT, SP, 0x65, 0x66, 0x67, 0x68] 4 1 =
     Some [\<lparr>chunk_text = [0x61, 0x62, 0x63, 0x64, DOT], index = 0, startChar = 0, endChar = 6\<rparr>,
           \<lparr>chunk_text = [0x65, 0x66, 0x67], index = 1, startChar = 5, endChar = 9\<rparr>,
           \<lparr>chunk_text = [0x67, 0x68], index = 2, startChar = 8, endChar = 10\<rparr>,
           \<lparr>chunk_text = [0x68], index = 3, startChar = 9, endChar = 10\<rparr>] \<and>
   list_all (\<lambda>c. int (length (chunk_text c)) \<le> 4 + 2)
     [\<lparr>chunk_text = [0x61, 0x62, 0x63, 0x64, DOT], index = 0, startChar = 0, endChar = 6\<rparr>,
      \<lparr>chunk_text = [0x65, 0x66, 0x67], index = 1, startChar = 5, endChar = 9\<rparr>,
      \<lparr>chunk_text = [0x67, 0x68], index = 2, startChar = 8, endChar = 10\<rparr>,
      \<lparr>chunk_text = [0x68 :: jschar], index = 3, startChar = 9, endChar = 10\<rparr>]"
proof -
  let ?s = "[0x61, 0x62, 0x63, 0x64, DOT, SP, 0x65, 0x66, 0x67, 0x68] :: jsstring"
  let ?cs = "[\<lparr>chunk_text = [0x61, 0x62, 0x63, 0x64, DOT], index = 0, startChar = 0, endChar = 6\<rparr>,
           \<lparr>chunk_text = [0x65, 0x66, 0x67], index = 1, startChar = 5, endChar = 9\<rparr>,
           \<lparr>chunk_text = [0x67, 0x68], index = 2, startChar = 8, endChar = 10\<rparr>,
           \<lparr>chunk_text = [0x68 :: jschar], index = 3, startChar = 9, endChar = 10\<rparr>]"
  have e: "chunkText 4 ?s 4 1 = Some ?cs" by code_simp
  have "0 \<le> (4::int) \<and> chunkText 4 ?s 4 1 = Some ?cs" using e by simp
  with chunk_length_bound have "\<forall>c\<in>set ?cs. int (length (chunk_text c)) \<le> 4 + 2"
    by blast
  then have "list_all (\<lambda>c. int (length (chunk_text c)) \<le> 4 + 2) ?cs"
    by (simp only: list_all_iff)
  with e show ?thesis by simp
qed

section \<open>Ingestion\<close>




lemma zip_upt_Cons:
  "zip [l..<l + Suc n] (d # ds) = (l, d) # zip [Suc l..<Suc l + n] ds"
proof -
  have "[l..<l + Suc n] = l # [Suc l..<Suc l + n]" by (simp add: upt_conv_Cons)
  then show ?thesis by (simp only: zip_Cons_Cons)
qed

lemma fold_save_chunk:
  assumes "\<forall>d. db_accepts w d"
  shows "fold (save_chunk w mk) cks (err, s) =
     (case err of Some e0 \<Rightarrow> Some e0 | None \<Rightarrow> first_embedding_error w cks,
      s @ zip [length s..<length s + length (embedded_docs w mk cks)] (embedded_docs w mk cks))"
proof (induction cks arbitrary: err s)
  case Nil
  then show ?case by (simp add: embedded_docs_def split: option.splits)
next
  case (Cons ci cks)
  show ?case
  proof (cases "generateEmbedding w (chunk_text (fst ci))")
    case (Inl e)
    then have "save_chunk w mk ci (err, s) = (case err of None \<Rightarrow> Some e | Some e0 \<Rightarrow> Some e0, s)"
      by (simp add: save_chunk_def)
    moreover have "embedded_docs w mk (ci # cks) = embedded_docs w mk cks"
      using Inl by (simp add: embedded_docs_def)
    ultimately show ?thesis using Inl Cons.IH by (simp split: option.splits)
  next
    case (Inr emb)
    let ?d = "mk (fst ci) (snd ci) emb"
    let ?ds = "embedded_docs w mk cks"
    have 1: "save_chunk w mk ci (err, s) = (err, s @ [(length s, ?d)])"
      using Inr assms by (simp add: save_chunk_def create_def)
    have 2: "embedded_docs w mk (ci # cks) = ?d # ?ds"
      using Inr by (simp add: embedded_docs_def)
    have 3: "first_embedding_error w (ci # cks) = first_embedding_error w cks"
      using Inr by simp
    have "fold (save_chunk w mk) (ci # cks) (err, s) =
            fold (save_chunk w mk) cks (err, s @ [(length s, ?d)])"
      by (simp add: 1)
    also have "\<dots> = (case err of Some e0 \<Rightarrow> Some e0 | None \<Rightarrow> first_embedding_error w cks,
        (s @ [(length s, ?d)]) @ zip [Suc (length s)..<Suc (length s) + length ?ds] ?ds)"
      using Cons.IH [of err "s @ [(length s, ?d)]"] by simp
    also have "(s @ [(length s, ?d)]) @ zip [Suc (length s)..<Suc (length s) + length ?ds] ?ds =
        s @ zip [length s..<length s + Suc (length ?ds)] (?d # ?ds)"
      by (simp only: zip_upt_Cons append_assoc append_Cons append_Nil)
    finally show ?thesis by (simp only: 2 3 length_Cons)
  qed
qed


lemma first_embedding_error_Some:
  "\<exists>ci\<in>set cks. \<exists>e. generateEmbedding w (chunk_text (fst ci)) = Inl e \<Longrightarrow>
   \<exists>e. first_embedding_error w cks = Some e"
  by (induction cks) (auto split: sum.splits)

lemma set_embedded_docs:
  "d \<in> set (embedded_docs w mk cks) \<longleftrightarrow>
     (\<exists>ci\<in>set cks. \<exists>emb. generateEmbedding w (chunk_text (fst ci)) = Inr emb \<and>
        d = mk (fst ci) (snd ci) emb)"
  by (induction cks) (auto simp: embedded_docs_def split: sum.splits)


lemma ingest_short:
  assumes "length (cleanText cont) \<le> 2000"
  shows "processAndSaveDocument w fuel ttl cont uid cat0 tags0 st =
     (case generateEmbedding w (cleanText cont) of
        Inl e \<Rightarrow> Some (Inl e, st)
      | Inr emb \<Rightarrow>
          (case create w st (single_doc ttl (cleanText cont) (category_or_other cat0)
                               (tags_or_empty tags0) uid emb) of
             Inl e \<Rightarrow> Some (Inl e, st)
           | Inr (docId, st1) \<Rightarrow>
               Some (Inr \<lparr>res_id = docId, res_title = ttl,
                          res_category = category_or_other cat0, chunksCreated = None\<rparr>, st1)))"
  using assms by (simp add: processAndSaveDocument_def Let_def)

lemma ingest_chunked:
  assumes "2000 < length (cleanText cont)" and "\<forall>d. db_accepts w d"
    and "chunkText fuel (cleanText cont) 1000 200 = Some chunks"
  shows "processAndSaveDocument w fuel ttl cont uid cat0 tags0 st =
     (let cat = category_or_other cat0; tgs = tags_or_empty tags0; n = length chunks;
          cks = zip chunks [0..<n];
          docs = embedded_docs w (chunk_doc ttl cat tgs uid (length st) n) cks;
          st' = st @ (length st, parent_doc ttl (cleanText cont) cat tgs uid n) #
                  zip [Suc (length st)..<Suc (length st) + length docs] docs
      in case first_embedding_error w cks of
           Some e \<Rightarrow> Some (Inl e, st')
         | None \<Rightarrow> Some (Inr \<lparr>res_id = length st, res_title = ttl, res_category = cat,
                                chunksCreated = Some n\<rparr>, st'))"
proof -
  let ?cat = "category_or_other cat0"
  let ?tgs = "tags_or_empty tags0"
  let ?n = "length chunks"
  let ?p = "parent_doc ttl (cleanText cont) ?cat ?tgs uid ?n"
  have cr: "create w st ?p = Inr (length st, st @ [(length st, ?p)])"
    using assms(2) by (simp add: create_def)
  have fd: "fold (save_chunk w (chunk_doc ttl ?cat ?tgs uid (length st) ?n)) (zip chunks [0..<?n])
              (None, st @ [(length st, ?p)]) =
            (first_embedding_error w (zip chunks [0..<?n]),
             (st @ [(length st, ?p)]) @
               zip [Suc (length st)..<Suc (length st) +
                      length (embedded_docs w (chunk_doc ttl ?cat ?tgs uid (length st) ?n) (zip chunks [0..<?n]))]
                   (embedded_docs w (chunk_doc ttl ?cat ?tgs uid (length st) ?n) (zip chunks [0..<?n])))"
    using fold_save_chunk [OF assms(2), of "chunk_doc ttl ?cat ?tgs uid (length st) ?n"
        "zip chunks [0..<?n]" None "st @ [(length st, ?p)]"]
    by simp
  show ?thesis
    using assms(1,3)
    by (simp add: processAndSaveDocument_def Let_def cr fd split: option.splits)
qed

lemma chunk_step_replicate_2001:
  fixes x :: jschar
  assumes "\<not> is_white x"
  shows "chunk_step (replicate 2001 x) 1000 200 (0, i, cs) =
           (800, Suc i, cs @ [\<lparr>chunk_text = replicate 1000 x, index = i,
                                startChar = 0, endChar = 1000\<rparr>])"
    and "chunk_step (replicate 2001 x) 1000 200 (800, i, cs) =
           (1600, Suc i, cs @ [\<lparr>chunk_text = replicate 1000 x, index = i,
                                 startChar = 800, endChar = 1800\<rparr>])"
    and "chunk_step (replicate 2001 x) 1000 200 (1600, i, cs) =
           (1801, Suc i, cs @ [\<lparr>chunk_text = replicate 401 x, index = i,
                                 startChar = 1600, endChar = 2001\<rparr>])"
    and "chunk_step (replicate 2001 x) 1000 200 (1801, i, cs) =
           (2001, Suc i, cs @ [\<lparr>chunk_text = replicate 200 x, index = i,
                                 startChar = 1801, endChar = 2001\<rparr>])"
proof -
  have e1: "(1000::int) = min (0 + 1000) (int 2001)"
    and e2: "(1800::int) = min (800 + 1000) (int 2001)"
    and e3: "(2001::int) = min (1600 + 1000) (int 2001)"
    and e4: "(2001::int) = min (1801 + 1000) (int 2001)" by simp_all
  have "chunk_step (replicate 2001 x) 1000 200 (0, i, cs) =
          (if 1000 - 200 \<le> (0::int) then 1000 else 1000 - 200, i + 1,
           cs @ [\<lparr>chunk_text = replicate (nat (1000 - 0)) x, index = i,
                   startChar = 0, endChar = 1000\<rparr>])"
    by (rule chunk_step_replicate [OF assms _ _ e1]) simp_all
  then show "chunk_step (replicate 2001 x) 1000 200 (0, i, cs) =
           (800, Suc i, cs @ [\<lparr>chunk_text = replicate 1000 x, index = i,
                                startChar = 0, endChar = 1000\<rparr>])"
    by simp
  have "chunk_step (replicate 2001 x) 1000 200 (800, i, cs) =
          (if 1800 - 200 \<le> (800::int) then 1800 else 1800 - 200, i + 1,
           cs @ [\<lparr>chunk_text = replicate (nat (1800 - 800)) x, index = i,
                   startChar = 800, endChar = 1800\<rparr>])"
    by (rule chunk_step_replicate [OF assms _ _ e2]) simp_all
  then show "chunk_step (replicate 2001 x) 1000 200 (800, i, cs) =
           (1600, Suc i, cs @ [\<lparr>chunk_text = replicate 1000 x, index = i,
                                 startChar = 800, endChar = 1800\<rparr>])"
    by simp
  have "chunk_step (replicate 2001 x) 1000 200 (1600, i, cs) =
          (if 2001 - 200 \<le> (1600::int) then 2001 else 2001 - 200, i + 1,
           cs @ [\<lparr>chunk_text = replicate (nat (2001 - 1600)) x, index = i,
                   startChar = 1600, endChar = 2001\<rparr>])"
    by (rule chunk_step_replicate [OF assms _ _ e3]) simp_all
  then show "chunk_step (replicate 2001 x) 1000 200 (1600, i, cs) =
           (1801, Suc i, cs @ [\<lparr>chunk_text = replicate 401 x, index = i,
                                 startChar = 1600, endChar = 2001\<rparr>])"
    by simp
  have "chunk_step (replicate 2001 x) 1000 200 (1801, i, cs) =
          (if 2001 - 200 \<le> (1801::int) then 2001 else 2001 - 200, i + 1,
           cs @ [\<lparr>chunk_text = replicate (nat (2001 - 1801)) x, index = i,
                   startChar = 1801, endChar = 2001\<rparr>])"
    by (rule chunk_step_replicate [OF assms _ _ e4]) simp_all
  then show "chunk_step (replicate 2001 x) 1000 200 (1801, i, cs) =
           (2001, Suc i, cs @ [\<lparr>chunk_text = replicate 200 x, index = i,
                                 startChar = 1801, endChar = 2001\<rparr>])"
    by simp
qed

lemma chunkText_replicate_2001:
  fixes x :: jschar
  assumes "\<not> is_white x"
  shows "chunkText 4 (replicate 2001 x) 1000 200 =
     Some [\<lparr>chunk_text = replicate 1000 x, index = 0, startChar = 0, endChar = 1000\<rparr>,
           \<lparr>chunk_text = replicate 1000 x, index = 1, startChar = 800, endChar = 1800\<rparr>,
           \<lparr>chunk_text = replicate 401 x, index = 2, startChar = 1600, endChar = 2001\<rparr>,
           \<lparr>chunk_text = replicate 200 x, index = 3, startChar = 1801, endChar = 2001\<rparr>]"
proof -
  have c: "cleanText (replicate 2001 x) = replicate 2001 x"
    by (rule cleanText_white_free) (simp add: assms)
  have ct: "chunkText fuel (replicate 2001 x) 1000 200 =
      chunk_loop fuel (replicate 2001 x) 1000 200 (0, 0, [])" for fuel
    by (simp add: chunkText_def c)
  have n4: "(4::nat) = Suc (Suc (Suc (Suc 0)))" by simp
  have l4: "chunk_loop (Suc (Suc (Suc (Suc 0)))) (replicate 2001 x) 1000 200 (0, 0, []) =
     Some [\<lparr>chunk_text = replicate 1000 x, index = 0, startChar = 0, endChar = 1000\<rparr>,
           \<lparr>chunk_text = replicate 1000 x, index = 1, startChar = 800, endChar = 1800\<rparr>,
           \<lparr>chunk_text = replicate 401 x, index = 2, startChar = 1600, endChar = 2001\<rparr>,
           \<lparr>chunk_text = replicate 200 x, index = 3, startChar = 1801, endChar = 2001\<rparr>]"
    by (simp add: chunk_step_replicate_2001 [OF assms])
  show ?thesis unfolding ct n4 by (rule l4)
qed


lemma set_zip_upt: "set (zip xs [0..<length xs]) = {(xs ! i, i) | i. i < length xs}"
  by (auto simp: set_zip)



lemma clean_a: "cleanText [0x61] = [0x61]"
  by (rule cleanText_white_free) (simp add: not_white_a)



section \<open>A failing embedding service during ingestion\<close>

lemma first_embedding_error_index:
  assumes "i < length chunks" and "generateEmbedding w (chunk_text (chunks ! i)) = Inl e'"
  shows "\<exists>e. first_embedding_error w (zip chunks [0..<length chunks]) = Some e"
proof (rule first_embedding_error_Some)
  have "(chunks ! i, i) \<in> set (zip chunks [0..<length chunks])"
    using assms(1) by (auto simp: set_zip_upt)
  with assms(2) show "\<exists>ci\<in>set (zip chunks [0..<length chunks]).
      \<exists>e. generateEmbedding w (chunk_text (fst ci)) = Inl e"
    by force
qed

lemma set_embedded_docs_index:
  "d \<in> set (embedded_docs w mk (zip chunks [0..<length chunks])) \<longleftrightarrow>
     (\<exists>i<length chunks. \<exists>v. generateEmbedding w (chunk_text (chunks ! i)) = Inr v \<and>
        d = mk (chunks ! i) i v)"
  unfolding set_embedded_docs set_zip_upt by auto

text \<open>
  Claim C2, as the code has it. A failure of the embedding service aborts the
  ingestion call. For a short document the call throws the error of
  \<^verbatim>\<open>generateEmbedding\<close> and creates nothing. For a chunked document, with a store that
  accepts every document, the call throws when the embedding of some chunk fails;
  the parent document has been created by then, and the chunk documents that are
  created are exactly those of the chunks whose embedding was returned, each with
  that embedding. No document is stored with an empty embedding in place of a failed
  one.
\<close>

theorem embedding_failure_aborts:
  "(length (cleanText cont) \<le> 2000 \<and> generateEmbedding w (cleanText cont) = Inl e \<longrightarrow>
      processAndSaveDocument w fuel ttl cont uid cat0 tags0 st = Some (Inl e, st)) \<and>
   (2000 < length (cleanText cont) \<and> (\<forall>d. db_accepts w d) \<and>
    chunkText fuel (cleanText cont) 1000 200 = Some chunks \<and>
    (\<exists>i<length chunks. \<exists>e'. generateEmbedding w (chunk_text (chunks ! i)) = Inl e') \<longrightarrow>
      (\<exists>e' docs.
         processAndSaveDocument w fuel ttl cont uid cat0 tags0 st =
           Some (Inl e',
                 st @
                 (length st,
                  parent_doc ttl (cleanText cont) (category_or_other cat0) (tags_or_empty tags0)
                    uid (length chunks)) #
                 zip [Suc (length st)..<Suc (length st) + length docs] docs) \<and>
         (\<forall>d. d \<in> set docs \<longleftrightarrow>
            (\<exists>i<length chunks. \<exists>v.
               generateEmbedding w (chunk_text (chunks ! i)) = Inr v \<and>
               d = chunk_doc ttl (category_or_other cat0) (tags_or_empty tags0) uid
                     (length st) (length chunks) (chunks ! i) i v))))"
proof (intro conjI impI)
  assume "length (cleanText cont) \<le> 2000 \<and> generateEmbedding w (cleanText cont) = Inl e"
  then show "processAndSaveDocument w fuel ttl cont uid cat0 tags0 st = Some (Inl e, st)"
    by (simp add: ingest_short)
next
  assume a: "2000 < length (cleanText cont) \<and> (\<forall>d. db_accepts w d) \<and>
    chunkText fuel (cleanText cont) 1000 200 = Some chunks \<and>
    (\<exists>i<length chunks. \<exists>e'. generateEmbedding w (chunk_text (chunks ! i)) = Inl e')"
  let ?cat = "category_or_other cat0"
  let ?tgs = "tags_or_empty tags0"
  let ?mk = "chunk_doc ttl ?cat ?tgs uid (length st) (length chunks)"
  let ?cks = "zip chunks [0..<length chunks]"
  let ?docs = "embedded_docs w ?mk ?cks"
  from a obtain e' where e': "first_embedding_error w ?cks = Some e'"
    using first_embedding_error_index by blast
  from a have long: "2000 < length (cleanText cont)" and db: "\<forall>d. db_accepts w d"
    and ch: "chunkText fuel (cleanText cont) 1000 200 = Some chunks" by simp_all
  have r: "processAndSaveDocument w fuel ttl cont uid cat0 tags0 st =
           Some (Inl e',
                 st @
                 (length st, parent_doc ttl (cleanText cont) ?cat ?tgs uid (length chunks)) #
                 zip [Suc (length st)..<Suc (length st) + length ?docs] ?docs)"
    by (simp only: ingest_chunked [OF long db ch] Let_def e' option.simps)
  have m: "\<forall>d. d \<in> set ?docs \<longleftrightarrow>
            (\<exists>i<length chunks. \<exists>v.
               generateEmbedding w (chunk_text (chunks ! i)) = Inr v \<and>
               d = ?mk (chunks ! i) i v)"
    by (simp only: set_embedded_docs_index) simp
  from r m show "\<exists>e' docs.
         processAndSaveDocument w fuel ttl cont uid cat0 tags0 st =
           Some (Inl e',
                 st @
                 (length st, parent_doc ttl (cleanText cont) ?cat ?tgs uid (length chunks)) #
                 zip [Suc (length st)..<Suc (length st) + length docs] docs) \<and>
         (\<forall>d. d \<in> set docs \<longleftrightarrow>
            (\<exists>i<length chunks. \<exists>v.
               generateEmbedding w (chunk_text (chunks ! i)) = Inr v \<and>
               d = ?mk (chunks ! i) i v))"
    by (intro exI [of _ e'] exI [of _ ?docs] conjI)
qed

lemma clean_2001: "cleanText (replicate 2001 (0x61 :: jschar)) = replicate 2001 0x61"
  by (rule cleanText_white_free) (simp add: not_white_a)

lemma chunkText_clean_2001:
  "chunkText 4 (cleanText (replicate 2001 (0x61 :: jschar))) 1000 200 =
     Some [\<lparr>chunk_text = replicate 1000 0x61, index = 0, startChar = 0, endChar = 1000\<rparr>,
           \<lparr>chunk_text = replicate 1000 0x61, index = 1, startChar = 800, endChar = 1800\<rparr>,
           \<lparr>chunk_text = replicate 401 0x61, index = 2, startChar = 1600, endChar = 2001\<rparr>,
           \<lparr>chunk_text = replicate 200 0x61, index = 3, startChar = 1801, endChar = 2001\<rparr>]"
  unfolding clean_2001 by (rule chunkText_replicate_2001 [OF not_white_a])

lemma embedding_status:
  "generateEmbedding (services_up\<lparr>voyage_post := (\<lambda>t. HttpStatus 401)\<rparr>) t = Inl VoyageKeyInvalid"
  "generateEmbedding (services_up\<lparr>voyage_post := (\<lambda>t. HttpStatus 429)\<rparr>) t = Inl VoyageRateLimited"
  by (simp_all add: generateEmbedding_def services_up_def)

theorem embedding_failure_aborts_witness:
  "length (cleanText [0x61]) \<le> 2000 \<and>
   generateEmbedding (services_up\<lparr>voyage_post := (\<lambda>t. HttpStatus 401)\<rparr>) (cleanText [0x61]) =
     Inl VoyageKeyInvalid \<and>
   processAndSaveDocument (services_up\<lparr>voyage_post := (\<lambda>t. HttpStatus 401)\<rparr>) 0
       [0x54] [0x61] [0x75] None None [] = Some (Inl VoyageKeyInvalid, []) \<and>
   2000 < length (cleanText (replicate 2001 (0x61 :: jschar))) \<and>
   (\<forall>d. db_accepts (services_up\<lparr>voyage_post := (\<lambda>t. HttpStatus 401)\<rparr>) d) \<and>
   (\<exists>e' docs.
      processAndSaveDocument (services_up\<lparr>voyage_post := (\<lambda>t. HttpStatus 401)\<rparr>) 4
          [0x54] (replicate 2001 0x61) [0x75] None None [] =
        Some (Inl e',
              (0, parent_doc [0x54] (replicate 2001 0x61) (js ''other'') [] [0x75] 4) #
              zip [1..<1 + length docs] docs) \<and>
      docs = [])"
proof -
  let ?w = "services_up\<lparr>voyage_post := (\<lambda>t. HttpStatus 401)\<rparr>"
  let ?chunks = "[\<lparr>chunk_text = replicate 1000 (0x61 :: jschar), index = 0, startChar = 0, endChar = 1000\<rparr>,
           \<lparr>chunk_text = replicate 1000 0x61, index = 1, startChar = 800, endChar = 1800\<rparr>,
           \<lparr>chunk_text = replicate 401 0x61, index = 2, startChar = 1600, endChar = 2001\<rparr>,
           \<lparr>chunk_text = replicate 200 0x61, index = 3, startChar = 1801, endChar = 2001\<rparr>]"
  have h1: "length (cleanText [0x61 :: jschar]) \<le> 2000" by (simp add: clean_a)
  have h2: "generateEmbedding ?w (cleanText [0x61]) = Inl VoyageKeyInvalid"
    by (rule embedding_status)
  have h3: "2000 < length (cleanText (replicate 2001 (0x61 :: jschar)))"
    by (simp add: clean_2001)
  have h4: "\<forall>d. db_accepts ?w d" by (simp add: services_up_def)
  have h5: "\<exists>i<length ?chunks. \<exists>e'. generateEmbedding ?w (chunk_text (?chunks ! i)) = Inl e'"
    using embedding_status(1) by (intro exI [of _ 0]) simp
  note inst1 = embedding_failure_aborts [where w = ?w and fuel = 0 and cont = "[0x61]"
      and e = VoyageKeyInvalid and ttl = "[0x54]" and uid = "[0x75]" and ?cat0.0 = None
      and ?tags0.0 = None and st = "[]"]
  from inst1 h1 h2
  have short: "processAndSaveDocument ?w 0 [0x54] [0x61] [0x75] None None [] =
      Some (Inl VoyageKeyInvalid, [])"
    by blast
  note inst2 = embedding_failure_aborts [where w = ?w and fuel = 4 and cont = "replicate 2001 0x61"
      and ttl = "[0x54]" and uid = "[0x75]" and ?cat0.0 = None
      and ?tags0.0 = None and st = "[]" and chunks = ?chunks]
  from inst2 h3 h4 h5 chunkText_clean_2001
  obtain e' docs where
    r: "processAndSaveDocument ?w 4 [0x54] (replicate 2001 0x61) [0x75] None None [] =
           Some (Inl e',
                 [] @
                 (length ([] :: store),
                  parent_doc [0x54] (cleanText (replicate 2001 0x61)) (category_or_other None)
                    (tags_or_empty None) [0x75] (length ?chunks)) #
                 zip [Suc (length ([] :: store))..<Suc (length ([] :: store)) + length docs] docs)"
    and m: "\<forall>d. d \<in> set docs \<longleftrightarrow>
            (\<exists>i<length ?chunks. \<exists>v.
               generateEmbedding ?w (chunk_text (?chunks ! i)) = Inr v \<and>
               d = chunk_doc [0x54] (category_or_other None) (tags_or_empty None) [0x75]
                     (length ([] :: store)) (length ?chunks) (?chunks ! i) i v)"
    by blast
  from m have "\<forall>d. d \<notin> set docs" by (simp add: embedding_status)
  then have d: "docs = []" by (cases docs) auto
  have len4: "length ?chunks = 4" by simp
  from r [unfolded len4] have r': "processAndSaveDocument ?w 4 [0x54] (replicate 2001 0x61) [0x75] None None [] =
        Some (Inl e',
              (0, parent_doc [0x54] (replicate 2001 0x61) (js ''other'') [] [0x75] 4) #
              zip [1..<1 + length docs] docs)"
    by (simp add: clean_2001 category_or_other_def tags_or_empty_def)
  from h1 h2 short h3 h4 r' d show ?thesis by blast
qed

theorem embedding_failure_counterexample:
  "length (cleanText [0x61]) \<le> 2000 \<and>
   processAndSaveDocument (services_up\<lparr>voyage_post := (\<lambda>t. HttpStatus 429)\<rparr>) 0
       [0x54] [0x61] [0x75] None None [] = Some (Inl VoyageRateLimited, []) \<and>
   2000 < length (cleanText (replicate 2001 (0x61 :: jschar))) \<and>
   processAndSaveDocument (services_up\<lparr>voyage_post := (\<lambda>t. HttpStatus 429)\<rparr>) 4
       [0x54] (replicate 2001 0x61) [0x75] None None [] =
     Some (Inl VoyageRateLimited,
           [(0, parent_doc [0x54] (replicate 2001 0x61) (js ''other'') [] [0x75] 4)])"
proof -
  let ?w = "services_up\<lparr>voyage_post := (\<lambda>t. HttpStatus 429)\<rparr>"
  have h1: "length (cleanText [0x61 :: jschar]) \<le> 2000" by (simp add: clean_a)
  have short: "processAndSaveDocument ?w 0 [0x54] [0x61] [0x75] None None [] =
      Some (Inl VoyageRateLimited, [])"
    by (simp add: ingest_short [OF h1] embedding_status)
  have h3: "2000 < length (cleanText (replicate 2001 (0x61 :: jschar)))"
    by (simp add: clean_2001)
  have h4: "\<forall>d. db_accepts ?w d" by (simp add: services_up_def)
  have len4: "length [\<lparr>chunk_text = replicate 1000 (0x61 :: jschar), index = 0, startChar = 0, endChar = 1000\<rparr>,
           \<lparr>chunk_text = replicate 1000 0x61, index = 1, startChar = 800, endChar = 1800\<rparr>,
           \<lparr>chunk_text = replicate 401 0x61, index = 2, startChar = 1600, endChar = 2001\<rparr>,
           \<lparr>chunk_text = replicate 200 0x61, index = 3, startChar = 1801, endChar = 2001\<rparr>] = 4"
    by simp
  have long: "processAndSaveDocument ?w 4 [0x54] (replicate 2001 0x61) [0x75] None None [] =
     Some (Inl VoyageRateLimited,
           [(0, parent_doc [0x54] (replicate 2001 0x61) (js ''other'') [] [0x75] 4)])"
    unfolding ingest_chunked [OF h3 h4 chunkText_clean_2001] Let_def len4
    by (simp add: embedded_docs_def embedding_status clean_2001 category_or_other_def
        tags_or_empty_def upt_rec)
  from h1 short h3 long show ?thesis by blast
qed

section \<open>The top-k search\<close>









lemma cos1: "cosineSimilarity [1, 0] [1, 0] = Inr 1"
  by (simp add: cosineSimilarity_def upt_rec)
lemma cos2: "cosineSimilarity [1, 0] [0, 1] = Inr 0"
  by (simp add: cosineSimilarity_def upt_rec)
lemma cos3: "cosineSimilarity [1, 0] [1] = Inl DimensionError"
  by (simp add: cosineSimilarity_def)






section \<open>The answer pipeline\<close>












end
